theory Spec2Isabelle
  imports Complex_Main "HOL-Library.Log_Nat"
begin

section \<open>Tensors, dtypes and errors\<close>

text \<open>
  The routing core of \<^verbatim>\<open>tutel/impls/fast_dispatch.py\<close> works on dense tensors.  A 2-D
  tensor is a list of rows; the scores inside tensors are modelled by real numbers (their
  rounding is not modelled), integer tensors by \<open>int\<close>, with the conversion
  \<^verbatim>\<open>.to(torch.int32)\<close> written out as a wrap-around.  A gate matrix carries its element dtype and its number of
  columns \<^verbatim>\<open>gates.size(1)\<close>, which the list of rows alone does not determine when there are
  no tokens.
\<close>

datatype dtype = Float16 | BFloat16 | Float32 | Float64

datatype error =
    RuntimeError string
  | ZeroDivisionError
  | IndexError
  | TypeError
  | AttributeError
  | ValueError
  | OverflowError
  | Exception string

datatype fval = Fin real | NaN

record gate_matrix =
  g_dtype :: dtype
  g_experts :: nat
  g_rows :: "real list list"

definition wf_gates :: "gate_matrix \<Rightarrow> bool" where
  "wf_gates G = list_all (\<lambda>r. length r = g_experts G) (g_rows G)"

definition to_int32 :: "int \<Rightarrow> int" where
  "to_int32 x = (x + 2147483648) mod 4294967296 - 2147483648"

definition py_int :: "real \<Rightarrow> int" where
  "py_int x = (if 0 \<le> x then \<lfloor>x\<rfloor> else \<lceil>x\<rceil>)"

text \<open>
  The capacity is computed on Python numbers, where a float is an IEEE double.
  \<open>round_double\<close> rounds a real to the nearest double, ties to the even significand, with
  gradual underflow below \<open>2 ^ - 1022\<close>; \<open>float_exponent x\<close> is the binary exponent of a
  positive \<open>x\<close>, and a rounded magnitude with exponent 1024 or more stands for an
  infinity.  \<open>int_of_float_product c m\<close> is the value of the Python expression
  \<^verbatim>\<open>int(c * m)\<close> for a float \<open>c\<close> and a non-negative integer \<open>m\<close>: the integer is converted
  to a double, the product is rounded once, and \<^verbatim>\<open>int\<close> truncates towards zero and refuses
  an infinity or a NaN.  The float \<open>c\<close> is the double nearest to the real that is given.
\<close>

definition float_exponent :: "real \<Rightarrow> int" where
  "float_exponent x =
     (if 1 \<le> x then bitlen \<lfloor>x\<rfloor> - 1 else - bitlen (\<lceil>1 / x\<rceil> - 1))"

definition pow2 :: "int \<Rightarrow> real" where
  "pow2 e = (if 0 \<le> e then 2 ^ nat e else 1 / 2 ^ nat (- e))"

definition round_half_even :: "real \<Rightarrow> int" where
  "round_half_even y =
     (let r = \<lfloor>y\<rfloor>; f = y - of_int r
      in if f < 1 / 2 then r else if 1 / 2 < f then r + 1 else if even r then r else r + 1)"

definition round_double_pos :: "real \<Rightarrow> real" where
  "round_double_pos x =
     (let ulp = pow2 (max (float_exponent x) (- 1022) - 52)
      in of_int (round_half_even (x / ulp)) * ulp)"

definition round_double :: "real \<Rightarrow> real" where
  "round_double x =
     (if x = 0 then 0 else if 0 < x then round_double_pos x else - round_double_pos (- x))"

definition is_inf :: "real \<Rightarrow> bool" where
  "is_inf v = (1024 \<le> float_exponent \<bar>v\<bar>)"

definition int_of_float_product :: "real \<Rightarrow> nat \<Rightarrow> error + int" where
  "int_of_float_product c m =
     (let a = round_double c; b = round_double (real m) in
      if is_inf b then Inl OverflowError
      else if is_inf a then (if m = 0 then Inl ValueError else Inl OverflowError)
      else (let p = round_double (a * b)
            in if is_inf p then Inl OverflowError else Inr (py_int p)))"

definition finfo_eps :: "dtype \<Rightarrow> real" where
  "finfo_eps d = (case d of
      Float16 \<Rightarrow> 1 / 2 ^ 10
    | BFloat16 \<Rightarrow> 1 / 2 ^ 7
    | Float32 \<Rightarrow> 1 / 2 ^ 23
    | Float64 \<Rightarrow> 1 / 2 ^ 52)"

section \<open>Tensor primitives used by the slot assigner\<close>

text \<open>
  The library operations on tensors, over lists.  \<^verbatim>\<open>torch.topk\<close> and
  \<^verbatim>\<open>argsort\<close> leave the order of equal keys open; the model takes the stable order
  (the lower index first).  \<open>sum_dim0\<close> and \<open>sum_dim1\<close> are the sums along the token
  axis and along the expert axis, \<open>mul2\<close> the elementwise product of two matrices and
  \<open>row_max\<close> the value part of \<^verbatim>\<open>max(dim=1)\<close>.
\<close>

definition argsort :: "('a::linorder) list \<Rightarrow> nat list" where
  "argsort xs = sort_key (\<lambda>i. xs ! i) [0..<length xs]"

definition topk_row :: "nat \<Rightarrow> real list \<Rightarrow> nat list" where
  "topk_row k row = take k (sort_key (\<lambda>i. - (row ! i)) [0..<length row])"

definition sum_dim0 :: "nat \<Rightarrow> ('a::comm_monoid_add) list list \<Rightarrow> 'a list" where
  "sum_dim0 E x = map (\<lambda>e. sum_list (map (\<lambda>r. r ! e) x)) [0..<E]"

definition sum_dim1 :: "('a::comm_monoid_add) list list \<Rightarrow> 'a list" where
  "sum_dim1 x = map sum_list x"

definition mul2 :: "('a::times) list list \<Rightarrow> 'a list list \<Rightarrow> 'a list list" where
  "mul2 x y = map2 (map2 (*)) x y"

definition row_max :: "real list \<Rightarrow> real" where
  "row_max row = fold max (tl row) (hd row)"

fun cumsum_acc :: "int list \<Rightarrow> int list list \<Rightarrow> int list list" where
  "cumsum_acc acc [] = []"
| "cumsum_acc acc (r # rs) = (let acc' = map2 (+) acc r in acc' # cumsum_acc acc' rs)"

definition ncols :: "'a list list \<Rightarrow> nat" where
  "ncols x = (case x of [] \<Rightarrow> 0 | r # _ \<Rightarrow> length r)"

text \<open>
  Modelled from the spec: \<^verbatim>\<open>fast_cumsum_sub_one\<close> lives in \<^verbatim>\<open>tutel/jit_kernels/gating.py\<close>,
  which is not among the sources.  The specification describes it as the cumulative sum of
  the one-hot mask along the token axis, minus one, so that the first token assigned to an
  expert gets location 0.
\<close>

definition fast_cumsum_sub_one :: "int list list \<Rightarrow> int list list" where
  "fast_cumsum_sub_one x = map (map (\<lambda>v. v - 1)) (cumsum_acc (replicate (ncols x) 0) x)"

section \<open>The slot assigner\<close>

definition one_hot_with_dtype :: "nat list \<Rightarrow> nat \<Rightarrow> int list list" where
  "one_hot_with_dtype data num_classes = map (\<lambda>i. (replicate num_classes 0)[i := 1]) data"

definition compute_sorted_location :: "int list list \<Rightarrow> real list \<Rightarrow> int list list" where
  "compute_sorted_location x importance_scores =
     (let perm = argsort importance_scores;
          sorted_x = map (\<lambda>i. x ! i) perm;
          sorted_cumsum = mul2 (fast_cumsum_sub_one sorted_x) sorted_x
      in map (\<lambda>i. sorted_cumsum ! i) (argsort perm))"

definition load_balance :: "gate_matrix \<Rightarrow> int list list \<Rightarrow> nat \<Rightarrow> bool \<Rightarrow> error + fval" where
  "load_balance gates mask1 num_global_experts fp32_gate =
     (let n = length (g_rows gates) in
      if g_dtype gates = Float32 \<or> fp32_gate then
        (let me = sum_dim0 (g_experts gates) (g_rows gates);
             ce = map real_of_int (sum_dim0 (g_experts gates) mask1)
         in if n * n = 0 then Inl ZeroDivisionError
            else Inr (Fin (sum_list (map2 (*) me ce) * (real num_global_experts / real (n * n)))))
      else
        (if n = 0 then Inr NaN
         else
           (let me = map (\<lambda>s. s / real n) (sum_dim0 (g_experts gates) (g_rows gates));
                ce = map (\<lambda>s. real_of_int s / real n) (sum_dim0 (g_experts gates) mask1)
            in Inr (Fin (sum_list (map2 (*) me ce) * real num_global_experts)))))"

definition compute_location :: "bool \<Rightarrow> gate_matrix \<Rightarrow> int list list \<Rightarrow> int list list" where
  "compute_location batch_prioritized_routing gates x =
     (if batch_prioritized_routing then
        compute_sorted_location x (map (\<lambda>r. -1 * row_max r) (g_rows gates))
      else fast_cumsum_sub_one x)"

definition add_base :: "int list list \<Rightarrow> int list \<Rightarrow> int list list" where
  "add_base x base = map (\<lambda>r. map2 (+) r base) x"

fun locations_loop ::
  "(int list list \<Rightarrow> int list list) \<Rightarrow> nat \<Rightarrow> int list list list \<Rightarrow> nat list \<Rightarrow>
   int list option \<Rightarrow> int list list \<Rightarrow> int list list" where
  "locations_loop cl E masks_se [] acc_base locations_s = locations_s"
| "locations_loop cl E masks_se (k # ks) acc_base locations_s =
     (let s = sum_dim0 E (masks_se ! (k - 1));
          acc_base' = (case acc_base of None \<Rightarrow> s | Some b \<Rightarrow> map2 (+) b s);
          locations2 = add_base (cl (masks_se ! k)) acc_base'
      in locations_loop cl E masks_se ks (Some acc_base')
           (locations_s @ [map to_int32 (sum_dim1 (mul2 locations2 (masks_se ! k)))]))"

definition py_sum :: "real list list \<Rightarrow> nat \<Rightarrow> real list" where
  "py_sum xs n = fold (\<lambda>x acc. map2 (+) acc x) xs (replicate n 0)"

type_synonym critical_data = "nat \<times> int list list \<times> int list list \<times> real list list \<times> int"

definition extract_critical ::
  "gate_matrix \<Rightarrow> nat \<Rightarrow> real \<Rightarrow> bool \<Rightarrow> bool \<Rightarrow> error + (critical_data \<times> fval)" where
  "extract_critical gates top_k capacity_factor fp32_gate batch_prioritized_routing =
     (let num_global_experts = g_experts gates;
          n = length (g_rows gates) in
      if num_global_experts < top_k then Inl (RuntimeError ''selected index k out of range'')
      else if top_k = 0 then Inl (RuntimeError ''chunk expects `chunks` to be greater than 0'')
      else
        (let topk_indices = map (topk_row top_k) (g_rows gates);
             indices_s = map (\<lambda>k. map (\<lambda>r. r ! k) topk_indices) [0..<top_k];
             masks_se = map (\<lambda>x. one_hot_with_dtype x num_global_experts) indices_s;
             gates_s = map (\<lambda>x. sum_dim1 (mul2 (g_rows gates) (map (map real_of_int) x))) masks_se
         in case load_balance gates (masks_se ! 0) num_global_experts fp32_gate of
              Inl e \<Rightarrow> Inl e
            | Inr l_loss \<Rightarrow>
               (let cl = compute_location batch_prioritized_routing gates;
                    locations1 = cl (masks_se ! 0);
                    locations_s0 = [map to_int32 (sum_dim1 (mul2 locations1 (masks_se ! 0)))];
                    locations_s =
                      (if top_k > 1
                       then locations_loop cl num_global_experts masks_se [1..<top_k] None locations_s0
                       else locations_s0);
                    gates_s' =
                      (if top_k > 1 then
                         (let denom_s = map (\<lambda>v. max v (finfo_eps (g_dtype gates))) (py_sum gates_s n)
                          in map (\<lambda>x. map2 (/) x denom_s) gates_s)
                       else gates_s);
                    indices_s' = map (map (\<lambda>i. to_int32 (int i))) indices_s
                in case int_of_float_product capacity_factor
                          ((n + num_global_experts - 1) div num_global_experts) of
                     Inl e \<Rightarrow> Inl e
                   | Inr c \<Rightarrow>
                       Inr ((num_global_experts, indices_s', locations_s, gates_s',
                             int top_k * c), l_loss))))"

section \<open>CPU kernel functions of the JIT compiler\<close>

text \<open>
  \<^verbatim>\<open>JitCompiler.generate_cpu_kernel(kernel_type)\<close> only builds and returns a closure.  The
  closure reads the dtype of its first input when it is invoked and either enters one of
  the two native routines of the extension module or raises.  A kernel function is modelled
  by what an invocation with a first input of a given dtype does.
\<close>

datatype cpu_call = Invoke_cpu_fp32 int | Invoke_cpu_fp64 int

type_synonym cpu_kernel = "dtype \<Rightarrow> error + cpu_call"

definition generate_cpu_kernel :: "int \<Rightarrow> error + cpu_kernel" where
  "generate_cpu_kernel kernel_type =
     Inr (\<lambda>inputs0_dtype.
       if inputs0_dtype = Float32 then Inr (Invoke_cpu_fp32 kernel_type)
       else if inputs0_dtype = Float64 then Inr (Invoke_cpu_fp64 kernel_type)
       else Inl (Exception ''CPU kernel only supports float32 and float64!''))"

section \<open>The scatter kernel interface\<close>

text \<open>
  Modelled from the spec: the three kernel constructors \<^verbatim>\<open>create_forward\<close>,
  \<^verbatim>\<open>create_backward_data\<close> and \<^verbatim>\<open>create_backward_gate\<close> live in
  \<^verbatim>\<open>tutel/jit_kernels/sparse.py\<close>, which is not among the sources.  A handle records the
  operation and the dtype and device class it was created for.  On the accelerator path it
  names the kernel specialised for that dtype; on the CPU path (\<open>is_cuda\<close> false) it stands
  for the closure that \<open>generate_cpu_kernel\<close> returns for the kernel type of the operation,
  so that creating it cannot fail and invoking it runs the closure, which inspects the
  dtype of its first input.  What an accepted invocation computes is the contract of
  section 4.2 of the specification, over rows of real numbers (the packed width
  \<open>aligned_dim\<close> only describes the memory layout of half-precision rows).  \<open>extra\<close> is
  the triple token count, aligned width, capacity.
\<close>

datatype kernel_kind = Forward | Backward_data | Backward_gate

datatype kernel_fn = Kernel kernel_kind dtype bool

definition create_forward :: "dtype \<Rightarrow> bool \<Rightarrow> kernel_fn" where
  "create_forward d is_cuda = Kernel Forward d is_cuda"

definition create_backward_data :: "dtype \<Rightarrow> bool \<Rightarrow> kernel_fn" where
  "create_backward_data d is_cuda = Kernel Backward_data d is_cuda"

definition create_backward_gate :: "dtype \<Rightarrow> bool \<Rightarrow> kernel_fn" where
  "create_backward_gate d is_cuda = Kernel Backward_gate d is_cuda"

definition kernel_type_of :: "kernel_kind \<Rightarrow> int" where
  "kernel_type_of k = (case k of Forward \<Rightarrow> 0 | Backward_data \<Rightarrow> 1 | Backward_gate \<Rightarrow> 2)"

definition invoke_kernel :: "kernel_fn \<Rightarrow> dtype \<Rightarrow> error + unit" where
  "invoke_kernel f inputs0_dtype =
     (case f of Kernel k d on_cuda \<Rightarrow>
        if on_cuda then Inr ()
        else (case generate_cpu_kernel (kernel_type_of k) of
                Inl e \<Rightarrow> Inl e
              | Inr func \<Rightarrow>
                 (case func inputs0_dtype of Inl e \<Rightarrow> Inl e | Inr call \<Rightarrow> Inr ())))"

definition vadd :: "real list \<Rightarrow> real list \<Rightarrow> real list" where
  "vadd u v = map2 (+) u v"

definition smul :: "real \<Rightarrow> real list \<Rightarrow> real list" where
  "smul c v = map ((*) c) v"

definition dot :: "real list \<Rightarrow> real list \<Rightarrow> real" where
  "dot u v = sum_list (map2 (*) u v)"

definition slot :: "int list \<Rightarrow> int list \<Rightarrow> int \<Rightarrow> nat \<Rightarrow> nat" where
  "slot index location capacity t = nat (index ! t * capacity + location ! t)"

text \<open>
  Modelled from the spec: for every token \<open>t\<close> with location below the capacity,
  \<open>dst[index[t] * capacity + location[t]] += gate[t] * src[t]\<close>.
\<close>

definition forward_scatter ::
  "real list \<Rightarrow> int list \<Rightarrow> int list \<Rightarrow> real list list \<Rightarrow> real list list \<Rightarrow>
   nat \<times> nat \<times> int \<Rightarrow> real list list" where
  "forward_scatter gate index location src dst extra =
     (case extra of (token_count, aligned_dim, capacity) \<Rightarrow>
        fold (\<lambda>t d.
               if location ! t < capacity
               then d[slot index location capacity t :=
                        vadd (d ! slot index location capacity t) (smul (gate ! t) (src ! t))]
               else d)
             [0..<token_count] dst)"

text \<open>
  Modelled from the spec: for every token \<open>t\<close>,
  \<open>dst_grad[t] += gate[t] * src_grad[index[t] * capacity + location[t]]\<close>.
\<close>

definition backward_data_gather ::
  "real list \<Rightarrow> int list \<Rightarrow> int list \<Rightarrow> real list list \<Rightarrow> real list list \<Rightarrow>
   nat \<times> nat \<times> int \<Rightarrow> real list list" where
  "backward_data_gather gate index location dst_grad src_grad extra =
     (case extra of (token_count, aligned_dim, capacity) \<Rightarrow>
        fold (\<lambda>t d.
               d[t := vadd (d ! t)
                        (smul (gate ! t) (src_grad ! slot index location capacity t))])
             [0..<token_count] dst_grad)"

text \<open>
  Modelled from the spec:
  \<open>out[t] = dot(lhs[t], rhs[index[t] * capacity + location[t]])\<close> for every token \<open>t\<close>.
\<close>

definition backward_gate_reduce ::
  "real list \<Rightarrow> int list \<Rightarrow> int list \<Rightarrow> real list list \<Rightarrow> real list list \<Rightarrow>
   nat \<times> nat \<times> int \<Rightarrow> real list" where
  "backward_gate_reduce out index location lhs rhs extra =
     (case extra of (token_count, aligned_dim, capacity) \<Rightarrow>
        fold (\<lambda>t out. out[t := dot (lhs ! t) (rhs ! slot index location capacity t)])
             [0..<token_count] out)"

section \<open>The dispatcher\<close>

text \<open>
  A tensor of token features carries its dtype and its trailing dimension
  \<^verbatim>\<open>data.size(-1)\<close>.  \<^verbatim>\<open>torch.empty\<close> returns storage of the requested shape whose
  contents are not defined.  The source hands such a buffer only to the gather and the
  gate-reduce kernel, as the place for their result, and adds the results of the streams
  itself; the buffer therefore counts as cleared, and the model lets it hold zeros.
  \<^verbatim>\<open>torch.zeros\<close> refuses a negative dimension.
\<close>

record data_tensor =
  d_dtype :: dtype
  d_dim :: nat
  d_rows :: "real list list"

definition torch_empty2 :: "nat \<Rightarrow> nat \<Rightarrow> real list list" where
  "torch_empty2 rows cols = replicate rows (replicate cols 0)"

definition torch_empty1 :: "nat \<Rightarrow> real list" where
  "torch_empty1 n = replicate n 0"

definition torch_zeros2 :: "int \<Rightarrow> nat \<Rightarrow> error + real list list" where
  "torch_zeros2 rows cols =
     (if rows < 0 then Inl (RuntimeError ''Trying to create tensor with negative dimension'')
      else Inr (replicate (nat rows) (replicate cols 0)))"

definition madd :: "real list list \<Rightarrow> real list list \<Rightarrow> real list list" where
  "madd a b = map2 vadd a b"

text \<open>
  A gate operand of a kernel call is either the shared all-ones helper tensor of the
  dispatcher or a tensor of real gates.  The constructor stands for the identity of the
  Python object, which \<^verbatim>\<open>backward\<close> compares with \<^verbatim>\<open>id\<close>.  Both carry their dtype
  and one weight per token; the second lane of the helper and of half-precision gates
  repeats the first.  The helper is created by the first dispatcher that binds a device
  class, with that dispatcher's compute dtype and token count, and is cached in the
  kernel pool with the handles.
\<close>

datatype gate_obj = Ones_helper dtype "real list" | Gates dtype "real list"

fun weights :: "gate_obj \<Rightarrow> real list" where
  "weights (Ones_helper d w) = w"
| "weights (Gates d w) = w"

fun gate_dtype :: "gate_obj \<Rightarrow> dtype" where
  "gate_dtype (Ones_helper d w) = d"
| "gate_dtype (Gates d w) = d"

fun is_ones_helper :: "gate_obj \<Rightarrow> bool" where
  "is_ones_helper (Ones_helper d w) = True"
| "is_ones_helper (Gates d w) = False"

type_synonym pool_entry = "kernel_fn \<times> kernel_fn \<times> kernel_fn \<times> dtype \<times> real list"

type_synonym kernel_pool = "bool \<rightharpoonup> pool_entry"

record dispatcher =
  num_global_experts :: nat
  capacity :: int
  model_dim :: nat
  dtype :: dtype
  original_dtype :: dtype
  aligned_dim :: nat
  is_cuda :: "bool option"
  self_indices :: "int list list"
  self_locations :: "int list list"
  self_gates :: "real list list"
  is_postscore :: "bool option"
  sample_size :: nat
  func_fwd :: "kernel_fn option"
  func_bwd_data :: "kernel_fn option"
  func_bwd_gate :: "kernel_fn option"
  ones_helper :: "(dtype \<times> real list) option"

definition init_dispatcher :: "bool \<Rightarrow> nat \<Rightarrow> int \<Rightarrow> nat \<Rightarrow> dtype \<Rightarrow> dispatcher" where
  "init_dispatcher IS_HIP_EXTENSION n_experts cap mdim dispatch_dtype =
     (let dt = (if IS_HIP_EXTENSION \<or> dispatch_dtype \<noteq> Float16 then Float32 else dispatch_dtype)
      in \<lparr>num_global_experts = n_experts, capacity = cap, model_dim = mdim, dtype = dt,
          original_dtype = dispatch_dtype,
          aligned_dim = mdim div (if dt = Float16 then 2 else 1),
          is_cuda = None, self_indices = [], self_locations = [], self_gates = [], is_postscore = None,
          sample_size = 0, func_fwd = None, func_bwd_data = None, func_bwd_gate = None,
          ones_helper = None\<rparr>)"

definition update ::
  "kernel_pool \<Rightarrow> dispatcher \<Rightarrow> bool \<Rightarrow> int list list \<Rightarrow> int list list \<Rightarrow> real list list \<Rightarrow>
   int option \<Rightarrow> bool \<Rightarrow> error + (dispatcher \<times> kernel_pool)" where
  "update pool self indices0_is_cuda indices locations gates cap postscore =
     (case indices of
        [] \<Rightarrow> Inl IndexError
      | i0 # _ \<Rightarrow>
         (case cap of
            None \<Rightarrow> Inl TypeError
          | Some c \<Rightarrow>
             (let self1 = self\<lparr>self_indices := map (map to_int32) indices,
                               self_locations := map (map to_int32) locations,
                               self_gates := gates,
                               is_postscore := Some postscore,
                               sample_size := length i0,
                               capacity := (if c \<noteq> 0 then c else capacity self)\<rparr>
              in if is_cuda self1 \<noteq> Some indices0_is_cuda then
                   (let self2 = self1\<lparr>is_cuda := Some indices0_is_cuda\<rparr>
                    in case pool indices0_is_cuda of
                         None \<Rightarrow>
                           (let f = create_forward (dtype self2) indices0_is_cuda;
                                bd = create_backward_data (dtype self2) indices0_is_cuda;
                                bg = create_backward_gate (dtype self2) indices0_is_cuda;
                                ones = (dtype self2, replicate (sample_size self2) 1)
                            in Inr (self2\<lparr>func_fwd := Some f, func_bwd_data := Some bd,
                                           func_bwd_gate := Some bg, ones_helper := Some ones\<rparr>,
                                    pool(indices0_is_cuda \<mapsto> (f, bd, bg, ones))))
                       | Some (f, bd, bg, ones) \<Rightarrow>
                           Inr (self2\<lparr>func_fwd := Some f, func_bwd_data := Some bd,
                                        func_bwd_gate := Some bg, ones_helper := Some ones\<rparr>,
                                pool))
                 else Inr (self1, pool))))"

section \<open>Gating operations\<close>

text \<open>
  The context that \<^verbatim>\<open>forward\<close> saves for \<^verbatim>\<open>backward\<close>: the input tensor, the dispatcher
  and the gate operands of the kernel calls.  Gates passed explicitly have been converted
  to the compute dtype of the dispatcher by \<open>update\<close>.
\<close>

record gating_ctx =
  ctx_input :: "real list list"
  ctx_config :: dispatcher
  ctx_gates_h2 :: "gate_obj list"

definition make_gates_h2 :: "dispatcher \<Rightarrow> real list list \<Rightarrow> error + gate_obj list" where
  "make_gates_h2 config gates =
     (if gates \<noteq> [] then Inr (map (Gates (dtype config)) gates)
      else case ones_helper config of
             None \<Rightarrow> Inl AttributeError
           | Some (d, ones) \<Rightarrow>
               Inr (replicate (length (self_indices config)) (Ones_helper d ones)))"

definition streams :: "gating_ctx \<Rightarrow> (gate_obj \<times> int list \<times> int list) list" where
  "streams ctx = zip (ctx_gates_h2 ctx) (zip (self_indices (ctx_config ctx)) (self_locations (ctx_config ctx)))"

definition extra_of :: "dispatcher \<Rightarrow> nat \<times> nat \<times> int" where
  "extra_of config = (length (hd (self_indices config)), aligned_dim config, capacity config)"

text \<open>
  The three loops over the streams.  Every iteration calls a kernel through the handle
  bound to the dispatcher, with the gate operand (for the gate gradient, the result
  buffer) as first input; the call raises when the handle is not bound or the kernel
  function refuses the dtype of its first input.
\<close>

fun scatter_loop ::
  "kernel_fn option \<Rightarrow> nat \<times> nat \<times> int \<Rightarrow> real list list \<Rightarrow>
   (gate_obj \<times> int list \<times> int list) list \<Rightarrow> real list list \<Rightarrow> error + real list list" where
  "scatter_loop func extra src [] dst = Inr dst"
| "scatter_loop func extra src ((g, i, l) # ss) dst =
     (case func of
        None \<Rightarrow> Inl AttributeError
      | Some f \<Rightarrow>
         (case invoke_kernel f (gate_dtype g) of
            Inl e \<Rightarrow> Inl e
          | Inr u \<Rightarrow>
              scatter_loop func extra src ss (forward_scatter (weights g) i l src dst extra)))"

fun gather_loop ::
  "kernel_fn option \<Rightarrow> nat \<times> nat \<times> int \<Rightarrow> nat \<Rightarrow> nat \<Rightarrow> real list list \<Rightarrow>
   (gate_obj \<times> int list \<times> int list) list \<Rightarrow> real list list option \<Rightarrow>
   error + real list list option" where
  "gather_loop func extra rows cols src [] last_result = Inr last_result"
| "gather_loop func extra rows cols src ((g, i, l) # ss) last_result =
     (case func of
        None \<Rightarrow> Inl AttributeError
      | Some f \<Rightarrow>
         (case invoke_kernel f (gate_dtype g) of
            Inl e \<Rightarrow> Inl e
          | Inr u \<Rightarrow>
             (let single_output =
                    backward_data_gather (weights g) i l (torch_empty2 rows cols) src extra
              in gather_loop func extra rows cols src ss
                   (Some (case last_result of None \<Rightarrow> single_output
                                             | Some r \<Rightarrow> madd r single_output)))))"

fun gate_loop ::
  "kernel_fn option \<Rightarrow> dtype \<Rightarrow> nat \<times> nat \<times> int \<Rightarrow> nat \<Rightarrow> real list list \<Rightarrow> real list list \<Rightarrow>
   (int list \<times> int list) list \<Rightarrow> error + real list list" where
  "gate_loop func d extra n lhs rhs [] = Inr []"
| "gate_loop func d extra n lhs rhs ((i, l) # ss) =
     (case func of
        None \<Rightarrow> Inl AttributeError
      | Some f \<Rightarrow>
         (case invoke_kernel f d of
            Inl e \<Rightarrow> Inl e
          | Inr u \<Rightarrow>
             (case gate_loop func d extra n lhs rhs ss of
                Inl e \<Rightarrow> Inl e
              | Inr grad_gates \<Rightarrow>
                  Inr (backward_gate_reduce (torch_empty1 n) i l lhs rhs extra # grad_gates))))"

definition GatingEncoder_forward ::
  "dispatcher \<Rightarrow> real list list \<Rightarrow> real list list \<Rightarrow> error + (gating_ctx \<times> real list list)" where
  "GatingEncoder_forward config reshaped_input gates =
     (case make_gates_h2 config gates of
        Inl e \<Rightarrow> Inl e
      | Inr gates_h2 \<Rightarrow>
         (let ctx = \<lparr>ctx_input = reshaped_input, ctx_config = config, ctx_gates_h2 = gates_h2\<rparr>
          in case torch_zeros2 (int (num_global_experts config) * capacity config)
                    (model_dim config) of
               Inl e \<Rightarrow> Inl e
             | Inr dispatched_input \<Rightarrow>
                (case scatter_loop (func_fwd config) (extra_of config) reshaped_input
                        (streams ctx) dispatched_input of
                   Inl e \<Rightarrow> Inl e
                 | Inr out \<Rightarrow> Inr (ctx, out))))"

definition GatingEncoder_backward ::
  "gating_ctx \<Rightarrow> data_tensor \<Rightarrow> error + (real list list option \<times> real list list)" where
  "GatingEncoder_backward ctx dispatched_input =
     (let config = ctx_config ctx in
      case gather_loop (func_bwd_data config) (extra_of config) (length (ctx_input ctx))
             (ncols (ctx_input ctx)) (d_rows dispatched_input) (streams ctx) None of
        Inl e \<Rightarrow> Inl e
      | Inr last_result \<Rightarrow>
         (case ctx_gates_h2 ctx of
            [] \<Rightarrow> Inl IndexError
          | g0 # _ \<Rightarrow>
             (if \<not> is_ones_helper g0 then
                (case gate_loop (func_bwd_gate config) (d_dtype dispatched_input)
                        (extra_of config) (sample_size config) (ctx_input ctx)
                        (d_rows dispatched_input)
                        (zip (self_indices config) (self_locations config)) of
                   Inl e \<Rightarrow> Inl e
                 | Inr grad_gates \<Rightarrow> Inr (last_result, grad_gates))
              else Inr (last_result, []))))"


definition encode :: "dispatcher \<Rightarrow> data_tensor \<Rightarrow> error + (gating_ctx \<times> data_tensor)" where
  "encode self data =
     (case is_postscore self of
        None \<Rightarrow> Inl AttributeError
      | Some postscore \<Rightarrow>
         (case GatingEncoder_forward self (d_rows data) (if postscore then [] else self_gates self) of
            Inl e \<Rightarrow> Inl e
          | Inr (ctx, out) \<Rightarrow>
              Inr (ctx, \<lparr>d_dtype = original_dtype self, d_dim = model_dim self, d_rows = out\<rparr>)))"




definition crit_experts :: "critical_data \<Rightarrow> nat" where
  "crit_experts c = fst c"

definition crit_indices :: "critical_data \<Rightarrow> int list list" where
  "crit_indices c = fst (snd c)"

definition crit_locations :: "critical_data \<Rightarrow> int list list" where
  "crit_locations c = fst (snd (snd c))"

definition crit_gates :: "critical_data \<Rightarrow> real list list" where
  "crit_gates c = fst (snd (snd (snd c)))"

definition crit_capacity :: "critical_data \<Rightarrow> int" where
  "crit_capacity c = snd (snd (snd (snd c)))"

text \<open>
  Names for the intermediate tensors of \<open>extract_critical\<close>, written exactly as they occur
  in its body: the per-rank index streams, their one-hot masks, the raw gate streams, the
  location streams and the normalised gate streams.
\<close>

definition indices_of :: "gate_matrix \<Rightarrow> nat \<Rightarrow> nat list list" where
  "indices_of G top_k =
     map (\<lambda>k. map (\<lambda>r. r ! k) (map (topk_row top_k) (g_rows G))) [0..<top_k]"

definition masks_of :: "gate_matrix \<Rightarrow> nat \<Rightarrow> int list list list" where
  "masks_of G top_k = map (\<lambda>x. one_hot_with_dtype x (g_experts G)) (indices_of G top_k)"

definition raw_gates_of :: "gate_matrix \<Rightarrow> nat \<Rightarrow> real list list" where
  "raw_gates_of G top_k =
     map (\<lambda>x. sum_dim1 (mul2 (g_rows G) (map (map real_of_int) x))) (masks_of G top_k)"

definition locations_of :: "gate_matrix \<Rightarrow> nat \<Rightarrow> bool \<Rightarrow> int list list" where
  "locations_of G top_k bpr =
     (let cl = compute_location bpr G;
          locations_s0 = [map to_int32 (sum_dim1 (mul2 (cl (masks_of G top_k ! 0)) (masks_of G top_k ! 0)))]
      in if top_k > 1
         then locations_loop cl (g_experts G) (masks_of G top_k) [1..<top_k] None locations_s0
         else locations_s0)"

definition norm_gates_of :: "gate_matrix \<Rightarrow> nat \<Rightarrow> real list list" where
  "norm_gates_of G top_k =
     (if top_k > 1 then
        (let denom_s = map (\<lambda>v. max v (finfo_eps (g_dtype G)))
                         (py_sum (raw_gates_of G top_k) (length (g_rows G)))
         in map (\<lambda>x. map2 (/) x denom_s) (raw_gates_of G top_k))
      else raw_gates_of G top_k)"

text \<open>
  The load-balance loss as the specification words it: \<open>me\<close> and \<open>ce\<close> are per-expert
  column sums of the gate matrix and of the rank-0 one-hot mask (the number of tokens whose
  first choice is the expert); the sum branch divides by the squared token count, the mean
  branch works with column means.
\<close>

definition me_sum :: "gate_matrix \<Rightarrow> nat \<Rightarrow> real" where
  "me_sum G e = (\<Sum>t<length (g_rows G). g_rows G ! t ! e)"

definition ce_sum :: "int list \<Rightarrow> nat \<Rightarrow> real" where
  "ce_sum idx e = real (card {t. t < length idx \<and> idx ! t = int e})"

definition load_balance_spec :: "gate_matrix \<Rightarrow> int list \<Rightarrow> bool \<Rightarrow> real" where
  "load_balance_spec G idx fp32_gate =
     (let n = real (length (g_rows G)); E = g_experts G in
      if g_dtype G = Float32 \<or> fp32_gate
      then real E * (\<Sum>e<E. me_sum G e * ce_sum idx e) / (n * n)
      else real E * (\<Sum>e<E. (me_sum G e / n) * (ce_sum idx e / n)))"

text \<open>The worked scenario of the specification: four tokens, two experts.\<close>

definition demo_gates :: gate_matrix where
  "demo_gates = \<lparr>g_dtype = Float32, g_experts = 2,
     g_rows = [[9/10, 1/10], [8/10, 2/10], [3/10, 7/10], [4/10, 6/10]]\<rparr>"

definition demo_crit1 :: critical_data where
  "demo_crit1 = (2, [[0, 0, 1, 1]], [[0, 1, 0, 1]], [[9/10, 8/10, 7/10, 6/10]], 2)"

definition demo_crit2 :: critical_data where
  "demo_crit2 = (2, [[0, 0, 1, 1], [1, 1, 0, 0]], [[0, 1, 0, 1], [2, 3, 2, 3]],
       [[9/10, 8/10, 7/10, 6/10], [1/10, 2/10, 3/10, 4/10]], 4)"











text \<open>
  A scenario for the capacity: 25 tokens, one expert, capacity factor 1.16.
\<close>

definition demo_gates25 :: gate_matrix where
  "demo_gates25 = \<lparr>g_dtype = Float32, g_experts = 1, g_rows = replicate 25 [1]\<rparr>"

definition demo_crit25 :: critical_data where
  "demo_crit25 = (1, [replicate 25 0], [map int [0..<25]], [replicate 25 1], 28)"

text \<open>
  Token features for the worked scenario.
\<close>

definition demo_data :: data_tensor where
  "demo_data = \<lparr>d_dtype = Float32, d_dim = 2, d_rows = [[1, 2], [3, 4], [5, 6], [7, 8]]\<rparr>"

text \<open>
  The per-expert base offset that the location loop has accumulated when it reaches
  rank \<open>k\<close>: the column sums of the masks of all lower ranks.
\<close>

primrec acc_base_at :: "nat \<Rightarrow> int list list list \<Rightarrow> nat \<Rightarrow> int list" where
  "acc_base_at E masks 0 = replicate E 0"
| "acc_base_at E masks (Suc k) = map2 (+) (acc_base_at E masks k) (sum_dim0 E (masks ! k))"

text \<open>
  The slot number in closed form.  \<open>sel\<close> is the expert chosen for a token at a rank;
  \<open>pos_of\<close> is the position of a token in the order in which slots are handed out (its own
  index, or its rank by ascending importance score under prioritised routing) and
  \<open>tok_at\<close> the token at a position.  A token's slot is the number of tokens of the same
  expert at earlier positions of its rank, plus the number of tokens the expert received
  at all lower ranks.
\<close>

definition sel :: "gate_matrix \<Rightarrow> nat \<Rightarrow> nat \<Rightarrow> nat \<Rightarrow> nat" where
  "sel G top_k k t = topk_row top_k (g_rows G ! t) ! k"

definition importance :: "gate_matrix \<Rightarrow> real list" where
  "importance G = map (\<lambda>r. -1 * row_max r) (g_rows G)"

definition pos_of :: "gate_matrix \<Rightarrow> bool \<Rightarrow> nat \<Rightarrow> nat" where
  "pos_of G bpr t = (if bpr then argsort (argsort (importance G)) ! t else t)"

definition tok_at :: "gate_matrix \<Rightarrow> bool \<Rightarrow> nat \<Rightarrow> nat" where
  "tok_at G bpr q = (if bpr then argsort (importance G) ! q else q)"

definition slot_number :: "gate_matrix \<Rightarrow> nat \<Rightarrow> bool \<Rightarrow> nat \<Rightarrow> nat \<Rightarrow> int" where
  "slot_number G top_k bpr k t =
     int (card {q. q \<le> pos_of G bpr t \<and> sel G top_k k (tok_at G bpr q) = sel G top_k k t}) - 1
     + (\<Sum>j<k. int (card {s. s < length (g_rows G) \<and> sel G top_k j s = sel G top_k k t}))"

text \<open>
  A scenario for prioritised routing: the second token is the more confident one.
\<close>

definition demo_gates_prio :: gate_matrix where
  "demo_gates_prio = \<lparr>g_dtype = Float32, g_experts = 2,
     g_rows = [[6/10, 4/10], [9/10, 1/10]]\<rparr>"

definition demo_crit_prio :: critical_data where
  "demo_crit_prio = (2, [[0, 0]], [[1, 0]], [[6/10, 9/10]], 1)"

section \<open>Properties of the slot assigner\<close>

lemmas crit_defs =
  crit_experts_def crit_indices_def crit_locations_def crit_gates_def crit_capacity_def

lemma extract_critical_topk_range:
  assumes "extract_critical G k cf fp bpr = Inr (crit, l)"
  shows "1 \<le> k \<and> k \<le> g_experts G"
  using assms unfolding extract_critical_def Let_def
  by (auto split: if_splits sum.splits)

lemma extract_critical_capacity:
  assumes "extract_critical G k cf fp bpr = Inr (crit, l)"
  shows "\<exists>c. int_of_float_product cf ((length (g_rows G) + g_experts G - 1) div g_experts G)
            = Inr c
          \<and> crit_capacity crit = int k * c"
  using assms unfolding extract_critical_def Let_def crit_defs
  by (auto split: if_splits sum.splits)

lemma round_half_even_nonneg: "0 \<le> y \<Longrightarrow> 0 \<le> round_half_even y"
  by (simp add: round_half_even_def Let_def)

lemma pow2_pos: "0 < pow2 e"
  by (simp add: pow2_def)

lemma round_double_nonneg:
  assumes "0 \<le> x"
  shows "0 \<le> round_double x"
proof (cases "x = 0")
  case True
  then show ?thesis by (simp add: round_double_def)
next
  case False
  then have x: "0 < x" using assms by simp
  let ?ulp = "pow2 (max (float_exponent x) (- 1022) - 52)"
  have "0 \<le> x / ?ulp" using x pow2_pos[of "max (float_exponent x) (- 1022) - 52"] by simp
  then have "0 \<le> round_half_even (x / ?ulp)" by (rule round_half_even_nonneg)
  then have "0 \<le> of_int (round_half_even (x / ?ulp)) * ?ulp"
    using pow2_pos[of "max (float_exponent x) (- 1022) - 52"] by simp
  then show ?thesis using x by (simp add: round_double_def round_double_pos_def Let_def)
qed

lemma int_of_float_product_floor:
  assumes "int_of_float_product c m = Inr v" "0 \<le> c"
  shows "v = \<lfloor>round_double (round_double c * round_double (real m))\<rfloor>"
proof -
  have "0 \<le> round_double c * round_double (real m)"
    using round_double_nonneg[OF assms(2)] round_double_nonneg[of "real m"] by simp
  then have "0 \<le> round_double (round_double c * round_double (real m))"
    by (rule round_double_nonneg)
  then show ?thesis
    using assms(1) by (auto simp: int_of_float_product_def Let_def py_int_def split: if_splits)
qed

lemma float_product_examples:
  "int_of_float_product (116/100) 25 = Inr 28"
  "int_of_float_product (3/10) 10 = Inr 3"
  "int_of_float_product (5/4) 2 = Inr 2"
  by code_simp+

lemma ceil_div_nat:
  assumes "0 < E"
  shows "int ((n + E - 1) div E) = \<lceil>real n / real E\<rceil>"
proof -
  define m where "m = (n + E - 1) div E"
  have a: "m * E + (n + E - 1) mod E = n + E - 1"
    unfolding m_def by simp
  have b: "(n + E - 1) mod E < E" using assms by simp
  have up: "n \<le> m * E" using a b assms by linarith
  have lo: "m * E < n + E" using a assms by linarith
  have "real n / real E \<le> real m"
    using up assms by (simp add: divide_le_eq flip: of_nat_mult)
  moreover have "real m - 1 < real n / real E"
  proof -
    have "real m * real E < real n + real E" using lo by (simp flip: of_nat_mult of_nat_add)
    then have "(real m - 1) * real E < real n" by (simp add: algebra_simps)
    then show ?thesis using assms by (simp add: less_divide_eq)
  qed
  ultimately have "\<lceil>real n / real E\<rceil> = int m"
    by (intro ceiling_unique) simp_all
  then show ?thesis by (simp add: m_def)
qed

text \<open>
  C2.  For the gate matrix [[0.9,0.1],[0.8,0.2],[0.3,0.7],[0.4,0.6]] with top_k = 1 and
  capacity_factor = 1.0, \<open>extract_critical\<close> returns two experts, indices [0,0,1,1],
  locations [0,1,0,1], gates [0.9,0.8,0.7,0.6] and capacity 2 (the scores are exact in the
  real-number model, which is what "approximately" stands for in floating point).
\<close>

theorem extract_critical_scenario:
  "extract_critical
     \<lparr>g_dtype = Float32, g_experts = 2,
      g_rows = [[9/10, 1/10], [8/10, 2/10], [3/10, 7/10], [4/10, 6/10]]\<rparr> 1 1 False False
   = Inr ((2, [[0, 0, 1, 1]], [[0, 1, 0, 1]], [[9/10, 8/10, 7/10, 6/10]], 2), Fin 1)"
  by code_simp

text \<open>
  C6 fails as it is written: the source converts \<open>capacity_factor * ceil(n / E)\<close> with
  \<^verbatim>\<open>int(...)\<close> before multiplying by \<open>top_k\<close>, so a fractional product is truncated.
  With one token, one expert, top_k = 1 and capacity_factor = 1.25 the capacity is 1, not 1.25.
\<close>

theorem capacity_product_counterexample:
  "extract_critical \<lparr>g_dtype = Float32, g_experts = 1, g_rows = [[1]]\<rparr> 1 (5/4) False False
     = Inr ((1, [[0]], [[0]], [[1]], 1), Fin 1)
   \<and> real_of_int (crit_capacity (1, [[0]], [[0]], [[1]], 1))
       \<noteq> real 1 * (5/4) * real_of_int \<lceil>real 1 / real 1\<rceil>"
  by code_simp

text \<open>
  C6, amended.  Whenever \<open>extract_critical\<close> returns and capacity_factor is positive, the
  capacity is \<open>top_k * floor (capacity_factor \<otimes> ceil (num_tokens / num_global_experts))\<close>,
  where \<open>\<otimes>\<close> is the product as Python computes it: both factors as doubles, the result
  rounded once to the nearest double.  The rounded product is brought down to an integer
  before it is scaled by \<open>top_k\<close>.
\<close>

theorem capacity_floor:
  assumes "extract_critical G top_k capacity_factor fp bpr = Inr (crit, l)"
    and "0 < capacity_factor"
  shows "crit_capacity crit =
    int top_k * \<lfloor>round_double (round_double capacity_factor *
      round_double (real_of_int \<lceil>real (length (g_rows G)) / real (g_experts G)\<rceil>))\<rfloor>"
proof -
  let ?m = "(length (g_rows G) + g_experts G - 1) div g_experts G"
  have E: "0 < g_experts G"
    using extract_critical_topk_range[OF assms(1)] by simp
  from extract_critical_capacity[OF assms(1)] obtain c where
    c: "int_of_float_product capacity_factor ?m = Inr c" "crit_capacity crit = int top_k * c"
    by blast
  have "real ?m = real_of_int (int ?m)" by simp
  also have "\<dots> = real_of_int \<lceil>real (length (g_rows G)) / real (g_experts G)\<rceil>"
    unfolding ceil_div_nat[OF E] ..
  finally have m: "real ?m = real_of_int \<lceil>real (length (g_rows G)) / real (g_experts G)\<rceil>" .
  have "c = \<lfloor>round_double (round_double capacity_factor * round_double (real ?m))\<rfloor>"
    using int_of_float_product_floor[OF c(1)] assms(2) by simp
  then show ?thesis unfolding c(2) m by simp
qed

lemma demo_run25:
  "extract_critical demo_gates25 1 (116/100) False False = Inr (demo_crit25, Fin 1)"
  by code_simp

theorem capacity_floor_witness:
  "crit_capacity demo_crit25 =
     int 1 * \<lfloor>round_double (round_double (116/100) *
       round_double (real_of_int \<lceil>real (length (g_rows demo_gates25))
                                    / real (g_experts demo_gates25)\<rceil>))\<rfloor>
   \<and> crit_capacity demo_crit25 = 28"
proof -
  have p: "(0::real) < 116/100" by simp
  have "crit_capacity demo_crit25 = 28" by (simp add: demo_crit25_def crit_defs)
  then show ?thesis using capacity_floor[OF demo_run25 p] by simp
qed

lemma topk_row_length: "k \<le> length row \<Longrightarrow> length (topk_row k row) = k"
  by (simp add: topk_row_def)

lemma topk_row_set: "set (topk_row k row) \<subseteq> {0..<length row}"
proof -
  have "set (topk_row k row) \<subseteq> set (sort_key (\<lambda>i. - (row ! i)) [0..<length row])"
    unfolding topk_row_def by (rule set_take_subset)
  then show ?thesis by simp
qed

lemma topk_row_nth_less:
  assumes "j < k" "k \<le> length row"
  shows "topk_row k row ! j < length row"
proof -
  have "topk_row k row ! j \<in> set (topk_row k row)"
    using assms by (simp add: topk_row_length)
  then show ?thesis using topk_row_set by fastforce
qed

lemma topk_row_distinct: "distinct (topk_row k row)"
  unfolding topk_row_def by (simp add: distinct_take)

lemma onehot_dot:
  fixes xs :: "real list"
  shows "i < length xs \<Longrightarrow> n = length xs \<Longrightarrow>
    sum_list (map2 (*) xs (map real_of_int ((replicate n 0)[i := 1]))) = xs ! i"
proof (induction xs arbitrary: i n)
  case Nil
  then show ?case by simp
next
  case (Cons x xs)
  obtain m where n: "n = Suc m" and m: "m = length xs" using Cons.prems by simp
  have zero: "sum_list (map2 (*) xs (map real_of_int (replicate m 0))) = 0"
    unfolding m by (induction xs) simp_all
  show ?case
  proof (cases i)
    case 0
    then show ?thesis using zero by (simp add: n)
  next
    case (Suc j)
    then show ?thesis using Cons.IH[of j m] Cons.prems m by (simp add: n)
  qed
qed

lemma masked_row_sums:
  "sum_dim1 (mul2 rows (map (map real_of_int) (one_hot_with_dtype (map f rows) E)))
     = map (\<lambda>r. sum_list (map2 (*) r (map real_of_int ((replicate E 0)[f r := 1])))) rows"
  unfolding sum_dim1_def mul2_def one_hot_with_dtype_def
  by (simp add: zip_map2 zip_same_conv_map comp_def)

lemma raw_gate_stream:
  assumes "wf_gates G" "k < top_k" "top_k \<le> g_experts G"
  shows "sum_dim1 (mul2 (g_rows G) (map (map real_of_int)
           (one_hot_with_dtype (map (\<lambda>r. topk_row top_k r ! k) (g_rows G)) (g_experts G))))
         = map (\<lambda>r. r ! (topk_row top_k r ! k)) (g_rows G)"
proof -
  have "\<And>r. r \<in> set (g_rows G) \<Longrightarrow>
      sum_list (map2 (*) r (map real_of_int ((replicate (g_experts G) 0)[topk_row top_k r ! k := 1])))
        = r ! (topk_row top_k r ! k)"
  proof -
    fix r assume "r \<in> set (g_rows G)"
    then have len: "length r = g_experts G"
      using assms(1) by (simp add: wf_gates_def list_all_iff)
    show "sum_list (map2 (*) r (map real_of_int ((replicate (g_experts G) 0)[topk_row top_k r ! k := 1])))
        = r ! (topk_row top_k r ! k)"
      by (rule onehot_dot) (use len assms topk_row_nth_less[of k top_k r] in simp_all)
  qed
  then show ?thesis unfolding masked_row_sums by simp
qed

lemma demo_gates_wf: "wf_gates demo_gates"
  by (simp add: wf_gates_def demo_gates_def)

lemma demo_run1: "extract_critical demo_gates 1 1 False False = Inr (demo_crit1, Fin 1)"
  by code_simp

lemma demo_run2: "extract_critical demo_gates 2 (5/4) False False = Inr (demo_crit2, Fin 1)"
  by code_simp

lemma demo_experts: "g_experts demo_gates \<le> 2147483648"
  by (simp add: demo_gates_def)

lemma demo_tokens: "2 < length (g_rows demo_gates)" "0 < length (g_rows demo_gates)"
  by (simp_all add: demo_gates_def)

lemma to_int32_id: "0 \<le> x \<Longrightarrow> x < 2147483648 \<Longrightarrow> to_int32 x = x"
  by (simp add: to_int32_def)

lemma extract_critical_Inr:
  "extract_critical G top_k cf fp bpr = Inr (crit, l) \<longleftrightarrow>
     top_k \<le> g_experts G \<and> top_k \<noteq> 0
     \<and> load_balance G (masks_of G top_k ! 0) (g_experts G) fp = Inr l
     \<and> \<not> isl (int_of_float_product cf
                  ((length (g_rows G) + g_experts G - 1) div g_experts G))
     \<and> crit = (g_experts G, map (map (\<lambda>i. to_int32 (int i))) (indices_of G top_k),
          locations_of G top_k bpr, norm_gates_of G top_k,
          int top_k * projr (int_of_float_product cf
                  ((length (g_rows G) + g_experts G - 1) div g_experts G)))"
  unfolding extract_critical_def Let_def indices_of_def masks_of_def raw_gates_of_def
    locations_of_def norm_gates_of_def
  by (auto split: sum.splits)

lemma indices_of_nth:
  "k < top_k \<Longrightarrow> indices_of G top_k ! k = map (\<lambda>r. topk_row top_k r ! k) (g_rows G)"
  by (simp add: indices_of_def comp_def)

lemma indices_of_length: "length (indices_of G top_k) = top_k"
  by (simp add: indices_of_def)

lemma masks_of_nth:
  "k < top_k \<Longrightarrow> masks_of G top_k ! k
     = one_hot_with_dtype (map (\<lambda>r. topk_row top_k r ! k) (g_rows G)) (g_experts G)"
  by (simp add: masks_of_def indices_of_length indices_of_nth)

lemma raw_gates_of_length: "length (raw_gates_of G top_k) = top_k"
  by (simp add: raw_gates_of_def masks_of_def indices_of_length)

lemma raw_gates_of_nth:
  assumes "wf_gates G" "k < top_k" "top_k \<le> g_experts G"
  shows "raw_gates_of G top_k ! k = map (\<lambda>r. r ! (topk_row top_k r ! k)) (g_rows G)"
proof -
  have "raw_gates_of G top_k ! k
      = sum_dim1 (mul2 (g_rows G) (map (map real_of_int) (masks_of G top_k ! k)))"
    using assms(2) by (simp add: raw_gates_of_def masks_of_def indices_of_length)
  then show ?thesis
    using raw_gate_stream[OF assms] masks_of_nth[OF assms(2)] by simp
qed

text \<open>
  C10.  With top_k = 1 the single gate stream returned by \<open>extract_critical\<close> holds, for
  every token, the raw score of the expert selected for it: the value of the gate matrix at
  the token's row and the returned expert index, with no division and no clamping.
\<close>

theorem top1_raw_gate:
  assumes "extract_critical G 1 cf fp bpr = Inr (crit, l)"
    and "wf_gates G" and "g_experts G \<le> 2147483648" and "t < length (g_rows G)"
  shows "length (crit_gates crit) = 1 \<and> length (crit_indices crit) = 1
    \<and> 0 \<le> crit_indices crit ! 0 ! t \<and> crit_indices crit ! 0 ! t < int (g_experts G)
    \<and> crit_gates crit ! 0 ! t = g_rows G ! t ! nat (crit_indices crit ! 0 ! t)"
proof -
  let ?r = "g_rows G ! t"
  have E: "1 \<le> g_experts G" using assms(1) by (simp add: extract_critical_Inr)
  have len: "length ?r = g_experts G"
    using assms(2,4) by (simp add: wf_gates_def list_all_length)
  have sel: "topk_row 1 ?r ! 0 < g_experts G"
    using topk_row_nth_less[of 0 1 ?r] len E by simp
  have ci: "crit_indices crit = map (map (\<lambda>i. to_int32 (int i))) (indices_of G 1)"
    and cg: "crit_gates crit = raw_gates_of G 1"
    using assms(1) by (simp_all add: extract_critical_Inr crit_defs norm_gates_of_def)
  have idx: "crit_indices crit ! 0 ! t = int (topk_row 1 ?r ! 0)"
    using assms(3,4) sel by (simp add: ci indices_of_length indices_of_nth to_int32_id)
  have g: "crit_gates crit ! 0 ! t = ?r ! (topk_row 1 ?r ! 0)"
    using raw_gates_of_nth[OF assms(2), of 0 1] E assms(4) by (simp add: cg)
  show ?thesis
    using idx g sel by (simp add: ci cg indices_of_length raw_gates_of_length)
qed

lemma sort_key_hd_min:
  assumes "x \<in> set xs"
  shows "f (hd (sort_key f xs)) \<le> f x"
proof -
  have s: "sorted (map f (sort_key f xs))" by simp
  have "x \<in> set (sort_key f xs)" using assms by simp
  then show ?thesis using s
    by (cases "sort_key f xs") auto
qed

lemma top1_is_argmax:
  assumes "e < length row"
  shows "row ! e \<le> row ! (topk_row 1 row ! 0)"
proof -
  have ne: "sort_key (\<lambda>i. - (row ! i)) [0..<length row] \<noteq> []"
    using assms by (metis length_0_conv length_sort length_upt less_nat_zero_code minus_nat.diff_0)
  have "topk_row 1 row ! 0 = hd (sort_key (\<lambda>i. - (row ! i)) [0..<length row])"
    unfolding topk_row_def using ne by (simp add: hd_conv_nth)
  then show ?thesis
    using sort_key_hd_min[of e "[0..<length row]" "\<lambda>i. - (row ! i)"] assms by simp
qed

theorem top1_raw_gate_witness:
  "length (crit_gates demo_crit1) = 1 \<and> length (crit_indices demo_crit1) = 1
    \<and> 0 \<le> crit_indices demo_crit1 ! 0 ! 2
    \<and> crit_indices demo_crit1 ! 0 ! 2 < int (g_experts demo_gates)
    \<and> crit_gates demo_crit1 ! 0 ! 2
        = g_rows demo_gates ! 2 ! nat (crit_indices demo_crit1 ! 0 ! 2)"
  by (rule top1_raw_gate[OF demo_run1 demo_gates_wf demo_experts demo_tokens(1)])

lemma py_sum_fold:
  assumes "\<forall>x \<in> set xs. length x = n" "length acc = n"
  shows "length (fold (\<lambda>x acc. map2 (+) acc x) xs acc) = n
    \<and> (\<forall>t<n. fold (\<lambda>x acc. map2 (+) acc x) xs acc ! t = acc ! t + sum_list (map (\<lambda>x. x ! t) xs))"
  using assms
proof (induction xs arbitrary: acc)
  case Nil
  then show ?case by simp
next
  case (Cons x xs)
  have lx: "length x = n" using Cons.prems by simp
  have l2: "length (map2 (+) acc x) = n" using lx Cons.prems by simp
  have ih: "length (fold (\<lambda>x acc. map2 (+) acc x) xs (map2 (+) acc x)) = n
    \<and> (\<forall>t<n. fold (\<lambda>x acc. map2 (+) acc x) xs (map2 (+) acc x) ! t
          = map2 (+) acc x ! t + sum_list (map (\<lambda>x. x ! t) xs))"
    using Cons.IH[OF _ l2] Cons.prems by simp
  show ?case using ih lx Cons.prems(2) by (simp add: add.assoc)
qed

lemma py_sum_nth:
  fixes xs :: "real list list"
  assumes "\<forall>x \<in> set xs. length x = n" "t < n"
  shows "py_sum xs n ! t = (\<Sum>j<length xs. xs ! j ! t)"
proof -
  have "py_sum xs n ! t = sum_list (map (\<lambda>x. x ! t) xs)"
    using py_sum_fold[OF assms(1), of "replicate n 0"] assms(2) by (simp add: py_sum_def)
  also have "\<dots> = (\<Sum>j<length xs. xs ! j ! t)"
    by (simp add: sum_list_sum_nth atLeast0LessThan)
  finally show ?thesis .
qed

lemma py_sum_length:
  assumes "\<forall>x \<in> set xs. length x = n"
  shows "length (py_sum xs n) = n"
  using py_sum_fold[OF assms, of "replicate n 0"] by (simp add: py_sum_def)

lemma raw_gates_of_lengths:
  "\<forall>x \<in> set (raw_gates_of G top_k). length x = length (g_rows G)"
  by (auto simp: raw_gates_of_def masks_of_def indices_of_def sum_dim1_def mul2_def
      one_hot_with_dtype_def)

lemma finfo_eps_pos: "0 < finfo_eps d"
  by (cases d) (simp_all add: finfo_eps_def)

lemma norm_gates_nth:
  assumes "1 < top_k" "k < top_k" "t < length (g_rows G)"
  shows "norm_gates_of G top_k ! k ! t
    = raw_gates_of G top_k ! k ! t
        / max (\<Sum>j<top_k. raw_gates_of G top_k ! j ! t) (finfo_eps (g_dtype G))"
proof -
  let ?n = "length (g_rows G)"
  have lk: "length (raw_gates_of G top_k ! k) = ?n"
    using raw_gates_of_lengths[of G top_k] assms(2) nth_mem[of k "raw_gates_of G top_k"]
    by (simp add: raw_gates_of_length)
  have ls: "length (py_sum (raw_gates_of G top_k) ?n) = ?n"
    by (rule py_sum_length[OF raw_gates_of_lengths])
  have s: "py_sum (raw_gates_of G top_k) ?n ! t = (\<Sum>j<top_k. raw_gates_of G top_k ! j ! t)"
    using py_sum_nth[OF raw_gates_of_lengths assms(3)] by (simp add: raw_gates_of_length)
  show ?thesis
    using assms lk ls s by (simp add: norm_gates_of_def Let_def raw_gates_of_length)
qed

text \<open>
  C5.  With top_k > 1 every returned gate value is the raw score of the expert chosen at
  that rank divided by \<open>max eps s\<close>, where \<open>s\<close> is the sum of the token's raw scores
  over all ranks and \<open>eps\<close> is the machine epsilon of the gate dtype; so the weights of a
  token sum to 1 unless its raw sum is below \<open>eps\<close>.
\<close>

theorem topk_gate_normalization:
  assumes "extract_critical G top_k cf fp bpr = Inr (crit, l)"
    and "wf_gates G" and "g_experts G \<le> 2147483648"
    and "1 < top_k" and "t < length (g_rows G)"
  shows "(\<forall>k<top_k. crit_gates crit ! k ! t
            = g_rows G ! t ! nat (crit_indices crit ! k ! t)
              / max (finfo_eps (g_dtype G))
                    (\<Sum>j<top_k. g_rows G ! t ! nat (crit_indices crit ! j ! t)))
    \<and> (finfo_eps (g_dtype G) \<le> (\<Sum>j<top_k. g_rows G ! t ! nat (crit_indices crit ! j ! t))
         \<longrightarrow> (\<Sum>k<top_k. crit_gates crit ! k ! t) = 1)"
proof -
  let ?r = "g_rows G ! t"
  let ?eps = "finfo_eps (g_dtype G)"
  have kE: "top_k \<le> g_experts G" using assms(1) by (simp add: extract_critical_Inr)
  have len: "length ?r = g_experts G"
    using assms(2,5) by (simp add: wf_gates_def list_all_length)
  have ci: "crit_indices crit = map (map (\<lambda>i. to_int32 (int i))) (indices_of G top_k)"
    and cg: "crit_gates crit = norm_gates_of G top_k"
    using assms(1) by (simp_all add: extract_critical_Inr crit_defs)
  have idx: "nat (crit_indices crit ! j ! t) = topk_row top_k ?r ! j" if "j < top_k" for j
  proof -
    have "topk_row top_k ?r ! j < g_experts G"
      using topk_row_nth_less[of j top_k ?r] that kE len by simp
    then show ?thesis
      using that assms(3,5) by (simp add: ci indices_of_length indices_of_nth to_int32_id)
  qed
  have raw: "raw_gates_of G top_k ! j ! t = ?r ! nat (crit_indices crit ! j ! t)"
    if "j < top_k" for j
    using raw_gates_of_nth[OF assms(2) that kE] idx[OF that] assms(5) by simp
  have sum_raw: "(\<Sum>j<top_k. raw_gates_of G top_k ! j ! t)
      = (\<Sum>j<top_k. ?r ! nat (crit_indices crit ! j ! t))"
    by (rule sum.cong) (simp_all add: raw)
  have each: "crit_gates crit ! k ! t
            = ?r ! nat (crit_indices crit ! k ! t)
              / max ?eps (\<Sum>j<top_k. ?r ! nat (crit_indices crit ! j ! t))"
    if "k < top_k" for k
    using norm_gates_nth[OF assms(4) that assms(5)] raw[OF that] sum_raw
    by (simp add: cg max.commute)
  have total: "(\<Sum>k<top_k. crit_gates crit ! k ! t) = 1"
    if ge: "?eps \<le> (\<Sum>j<top_k. ?r ! nat (crit_indices crit ! j ! t))"
  proof -
    let ?S = "\<Sum>j<top_k. ?r ! nat (crit_indices crit ! j ! t)"
    have pos: "0 < ?S" using ge finfo_eps_pos[of "g_dtype G"] by linarith
    have "(\<Sum>k<top_k. crit_gates crit ! k ! t)
        = (\<Sum>k<top_k. ?r ! nat (crit_indices crit ! k ! t) / ?S)"
      by (rule sum.cong) (use each ge in \<open>simp_all add: max_def\<close>)
    also have "\<dots> = ?S / ?S" by (rule sum_divide_distrib[symmetric])
    also have "\<dots> = 1" using pos by simp
    finally show ?thesis .
  qed
  show ?thesis using each total by blast
qed

theorem topk_gate_normalization_witness:
  "crit_gates demo_crit2 ! 1 ! 2
     = g_rows demo_gates ! 2 ! nat (crit_indices demo_crit2 ! 1 ! 2)
         / max (finfo_eps (g_dtype demo_gates))
               (\<Sum>j<2. g_rows demo_gates ! 2 ! nat (crit_indices demo_crit2 ! j ! 2))
   \<and> (\<Sum>k<2. crit_gates demo_crit2 ! k ! 2) = 1"
proof -
  have k: "1 < (2::nat)" by simp
  note th = topk_gate_normalization[OF demo_run2 demo_gates_wf demo_experts k demo_tokens(1)]
  have ge: "finfo_eps (g_dtype demo_gates)
      \<le> (\<Sum>j<2. g_rows demo_gates ! 2 ! nat (crit_indices demo_crit2 ! j ! 2))"
    by (simp add: demo_gates_def demo_crit2_def crit_defs finfo_eps_def lessThan_nat_numeral
        lessThan_Suc)
  have one: "(1::nat) < 2" by simp
  from th have "crit_gates demo_crit2 ! 1 ! 2
     = g_rows demo_gates ! 2 ! nat (crit_indices demo_crit2 ! 1 ! 2)
         / max (finfo_eps (g_dtype demo_gates))
               (\<Sum>j<2. g_rows demo_gates ! 2 ! nat (crit_indices demo_crit2 ! j ! 2))"
    using one by blast
  moreover from th ge have "(\<Sum>k<2. crit_gates demo_crit2 ! k ! 2) = 1" by blast
  ultimately show ?thesis by (rule conjI)
qed

lemma sum_list_map_nth: 
  fixes f :: "'a \<Rightarrow> 'b::comm_monoid_add"
  shows "sum_list (map f xs) = (\<Sum>t<length xs. f (xs ! t))"
  by (simp add: sum_list_sum_nth atLeast0LessThan)

lemma sum_list_indicator:
  "sum_list (map (\<lambda>i. if P i then (1::int) else 0) xs) = int (card {t. t < length xs \<and> P (xs ! t)})"
proof -
  have "sum_list (map (\<lambda>i. if P i then (1::int) else 0) xs)
      = (\<Sum>t<length xs. if P (xs ! t) then 1 else 0)"
    by (rule sum_list_map_nth)
  also have "\<dots> = int (card {t \<in> {..<length xs}. P (xs ! t)})"
    by (simp add: sum.If_cases Int_def)
  finally show ?thesis by (simp add: conj_commute)
qed

lemma dot_upt:
  fixes f g :: "nat \<Rightarrow> real"
  shows "sum_list (map2 (*) (map f [0..<E]) (map g [0..<E])) = (\<Sum>e<E. f e * g e)"
proof -
  have "map2 (*) (map f [0..<E]) (map g [0..<E]) = map (\<lambda>e. f e * g e) [0..<E]"
    by (simp add: zip_map_map zip_same_conv_map comp_def)
  then show ?thesis by (simp add: sum_list_sum_nth atLeast0LessThan)
qed

lemma onehot_column_count:
  assumes "e < E"
  shows "sum_list (map (\<lambda>r. r ! e) (one_hot_with_dtype idx E))
       = int (card {t. t < length idx \<and> idx ! t = e})"
proof -
  have "map (\<lambda>r. r ! e) (one_hot_with_dtype idx E) = map (\<lambda>i. if i = e then (1::int) else 0) idx"
    using assms by (auto simp: one_hot_with_dtype_def nth_list_update)
  then show ?thesis using sum_list_indicator[of "\<lambda>i. i = e" idx] by simp
qed

lemma sum_dim0_gates: "sum_dim0 (g_experts G) (g_rows G) = map (me_sum G) [0..<g_experts G]"
  unfolding sum_dim0_def me_sum_def by (simp add: sum_list_map_nth)

lemma sum_dim0_mask:
  "sum_dim0 E (one_hot_with_dtype idx E)
     = map (\<lambda>e. int (card {t. t < length idx \<and> idx ! t = e})) [0..<E]"
  unfolding sum_dim0_def by (simp add: onehot_column_count)

lemma load_balance_value:
  assumes "0 < length (g_rows G)"
  shows "load_balance G (one_hot_with_dtype idx (g_experts G)) (g_experts G) fp =
    Inr (Fin (let n = real (length (g_rows G)); E = g_experts G;
                  c = (\<lambda>e. real (card {t. t < length idx \<and> idx ! t = e})) in
      if g_dtype G = Float32 \<or> fp
      then real E * (\<Sum>e<E. me_sum G e * c e) / (n * n)
      else real E * (\<Sum>e<E. (me_sum G e / n) * (c e / n))))"
  using assms unfolding load_balance_def Let_def sum_dim0_gates sum_dim0_mask
  by (simp add: comp_def dot_upt)

text \<open>
  C4.  The loss returned by \<open>extract_critical\<close> is \<open>load_balance_spec\<close>:
  \<open>E * (\<Sum>e. me e * ce e)\<close>, with column sums and a division by the squared number of
  tokens when the gates are float32 or \<open>fp32_gate\<close> is set, and with column means and no
  further division otherwise.
\<close>

theorem load_balance_matches_spec:
  assumes "extract_critical G top_k cf fp bpr = Inr (crit, l)"
    and "wf_gates G" and "g_experts G \<le> 2147483648" and "0 < length (g_rows G)"
  shows "l = Fin (load_balance_spec G (crit_indices crit ! 0) fp)"
proof -
  let ?idx = "map (\<lambda>r. topk_row top_k r ! 0) (g_rows G)"
  have k: "0 < top_k" "top_k \<le> g_experts G"
    using assms(1) by (simp_all add: extract_critical_Inr)
  have lb: "load_balance G (masks_of G top_k ! 0) (g_experts G) fp = Inr l"
    using assms(1) by (simp add: extract_critical_Inr)
  have ci: "crit_indices crit ! 0 = map (\<lambda>i. to_int32 (int i)) ?idx"
    using assms(1) k by (simp add: extract_critical_Inr crit_defs indices_of_length indices_of_nth)
  have sel: "topk_row top_k (g_rows G ! t) ! 0 < g_experts G" if "t < length (g_rows G)" for t
  proof -
    have "length (g_rows G ! t) = g_experts G"
      using assms(2) that by (simp add: wf_gates_def list_all_length)
    then show ?thesis using topk_row_nth_less[of 0 top_k "g_rows G ! t"] k by simp
  qed
  have wrap: "to_int32 (int (topk_row top_k (g_rows G ! t) ! 0))
      = int (topk_row top_k (g_rows G ! t) ! 0)" if "t < length (g_rows G)" for t
    using sel[OF that] assms(3) by (intro to_int32_id) simp_all
  have ce: "ce_sum (crit_indices crit ! 0) e = real (card {t. t < length ?idx \<and> ?idx ! t = e})"
    for e
  proof -
    have "{t. t < length (crit_indices crit ! 0) \<and> crit_indices crit ! 0 ! t = int e}
        = {t. t < length ?idx \<and> ?idx ! t = e}"
      using wrap by (auto simp: ci)
    then show ?thesis by (simp add: ce_sum_def)
  qed
  have "l = Fin (let n = real (length (g_rows G)); E = g_experts G;
                  c = (\<lambda>e. real (card {t. t < length ?idx \<and> ?idx ! t = e})) in
      if g_dtype G = Float32 \<or> fp
      then real E * (\<Sum>e<E. me_sum G e * c e) / (n * n)
      else real E * (\<Sum>e<E. (me_sum G e / n) * (c e / n)))"
    using lb load_balance_value[OF assms(4), of ?idx fp] masks_of_nth[OF k(1), of G] by simp
  then show ?thesis unfolding load_balance_spec_def Let_def ce by simp
qed

theorem load_balance_matches_spec_witness:
  "Fin 1 = Fin (load_balance_spec demo_gates (crit_indices demo_crit2 ! 0) False)"
  by (rule load_balance_matches_spec[OF demo_run2 demo_gates_wf demo_experts demo_tokens(2)])

section \<open>Properties of the kernel functions and of the kernel pool\<close>

text \<open>
  C8 fails as it is written: generating a CPU kernel function succeeds whatever dtype
  will be used, and the error for an unsupported dtype is raised by the returned function,
  inside the primitive invocation.  Here the kernel of type 0 is generated and then invoked
  on a half-precision input.
\<close>

theorem cpu_kernel_binding_counterexample:
  "(case generate_cpu_kernel 0 of
      Inl e \<Rightarrow> False
    | Inr f \<Rightarrow> f Float16 = Inl (Exception ''CPU kernel only supports float32 and float64!''))"
  by (simp add: generate_cpu_kernel_def)

text \<open>
  C8, amended.  On the CPU path \<open>generate_cpu_kernel\<close> never raises; the function it
  returns raises the descriptive error "CPU kernel only supports float32 and float64!"
  exactly when it is invoked with a first input whose dtype is neither float32 nor float64,
  and enters the float32 or float64 native routine otherwise.
\<close>

theorem cpu_kernel_error_at_invocation:
  "\<exists>f. generate_cpu_kernel kernel_type = Inr f
     \<and> (f d = Inl (Exception ''CPU kernel only supports float32 and float64!''))
         = (d \<noteq> Float32 \<and> d \<noteq> Float64)
     \<and> f Float32 = Inr (Invoke_cpu_fp32 kernel_type)
     \<and> f Float64 = Inr (Invoke_cpu_fp64 kernel_type)"
  by (simp add: generate_cpu_kernel_def)

text \<open>
  C9 does not hold on the code: \<open>update\<close> creates handles specialised for the
  dispatcher's compute dtype but stores and looks them up under the device class alone.
  A float32 dispatcher followed by a float16 dispatcher on the same device class leaves the
  second one bound to the float32 handles of the first.
\<close>

theorem kernel_pool_ignores_dtype:
  "(case update Map.empty (init_dispatcher False 1 0 1 Float32) True [[0]] [[0]] [[1]] (Some 1) True of
      Inl e \<Rightarrow> False
    | Inr (d1, pool1) \<Rightarrow>
       (case update pool1 (init_dispatcher False 1 0 1 Float16) True [[0]] [[0]] [[1]] (Some 1) True of
          Inl e \<Rightarrow> False
        | Inr (d2, pool2) \<Rightarrow>
            dtype d1 = Float32 \<and> dtype d2 = Float16
            \<and> func_fwd d2 = Some (Kernel Forward Float32 True)
            \<and> func_fwd d2 = func_fwd d1
            \<and> func_fwd d2 \<noteq> Some (create_forward (dtype d2) True)))"
  by (simp add: update_def init_dispatcher_def create_forward_def create_backward_data_def
      create_backward_gate_def Let_def)

section \<open>Properties of the dispatcher\<close>

text \<open>
  C7 does not hold on the code in a process that has bound the device class before: the
  all-ones helper is created once per device class, with the token count of the first
  dispatcher, and \<open>update\<close> takes it from the kernel pool without looking at its size.
  After a dispatcher with one token, a dispatcher with four tokens and \<open>is_postscore\<close> true
  is bound to a helper with a single row, and \<open>encode\<close> passes that helper to the scatter
  kernel as the gate operand of its four tokens, so the kernel has no weight 1 to read
  for the later tokens.
\<close>

theorem stale_ones_helper:
  "(case update Map.empty (init_dispatcher False 2 0 2 Float32) False
           [[0]] [[0]] [[1]] (Some 1) True of
      Inl e \<Rightarrow> False
    | Inr (d1, pool1) \<Rightarrow>
       (case update pool1 (init_dispatcher False 2 0 2 Float32) False
               [[0, 0, 1, 1]] [[0, 1, 0, 1]] [[9/10, 8/10, 7/10, 6/10]] (Some 2) True of
          Inl e \<Rightarrow> False
        | Inr (d2, pool2) \<Rightarrow>
            sample_size d2 = 4 \<and> ones_helper d2 = Some (Float32, [1])
            \<and> (case encode d2 demo_data of
                  Inl e \<Rightarrow> False
                | Inr (ctx, out) \<Rightarrow>
                    ctx_gates_h2 ctx = [Ones_helper Float32 [1]]
                  \<and> length (weights (hd (ctx_gates_h2 ctx))) < sample_size d2)))"
  by (simp add: update_def init_dispatcher_def create_forward_def create_backward_data_def
      create_backward_gate_def Let_def encode_def GatingEncoder_forward_def make_gates_h2_def
      torch_zeros2_def streams_def extra_of_def invoke_kernel_def generate_cpu_kernel_def
      kernel_type_of_def demo_data_def)

section \<open>Slot numbers: uniqueness and order\<close>

lemma cumsum_acc_length: "length (cumsum_acc acc x) = length x"
  by (induction x arbitrary: acc) (simp_all add: Let_def)

lemma cumsum_acc_nth:
  assumes "\<forall>r \<in> set x. length r = E" "length acc = E" "t < length x" "e < E"
  shows "length (cumsum_acc acc x ! t) = E
     \<and> cumsum_acc acc x ! t ! e = acc ! e + (\<Sum>s\<le>t. x ! s ! e)"
  using assms
proof (induction x arbitrary: acc t)
  case Nil
  then show ?case by simp
next
  case (Cons r rs)
  have lr: "length r = E" using Cons.prems(1) by simp
  let ?acc' = "map2 (+) acc r"
  have la: "length ?acc' = E" using lr Cons.prems(2) by simp
  have acc'e: "?acc' ! e = acc ! e + r ! e" using lr Cons.prems(2,4) by simp
  show ?case
  proof (cases t)
    case 0
    then show ?thesis using la acc'e by (simp add: Let_def)
  next
    case (Suc u)
    have u: "u < length rs" using Cons.prems(3) Suc by simp
    have ih: "length (cumsum_acc ?acc' rs ! u) = E
       \<and> cumsum_acc ?acc' rs ! u ! e = ?acc' ! e + (\<Sum>s\<le>u. rs ! s ! e)"
      using Cons.IH[OF _ la u Cons.prems(4)] Cons.prems(1) by simp
    have "(\<Sum>s\<le>Suc u. (r # rs) ! s ! e) = r ! e + (\<Sum>s\<le>u. rs ! s ! e)"
      by (simp add: sum.atMost_Suc_shift del: sum.atMost_Suc)
    then show ?thesis using ih acc'e Suc by (simp add: Let_def)
  qed
qed

lemma fast_cumsum_sub_one_nth:
  assumes "\<forall>r \<in> set x. length r = E" "t < length x" "e < E"
  shows "length (fast_cumsum_sub_one x ! t) = E
     \<and> fast_cumsum_sub_one x ! t ! e = (\<Sum>s\<le>t. x ! s ! e) - 1"
proof -
  have nc: "ncols x = E" using assms(1,2) by (cases x) (simp_all add: ncols_def)
  have "cumsum_acc (replicate E 0) x ! t ! e = (replicate E 0) ! e + (\<Sum>s\<le>t. x ! s ! e)"
    and l: "length (cumsum_acc (replicate E 0) x ! t) = E"
    using cumsum_acc_nth[OF assms(1) _ assms(2,3), of "replicate E 0"] by simp_all
  then show ?thesis using assms(2,3) by (simp add: fast_cumsum_sub_one_def nc cumsum_acc_length)
qed

lemma fast_cumsum_sub_one_length: "length (fast_cumsum_sub_one x) = length x"
  by (simp add: fast_cumsum_sub_one_def cumsum_acc_length)

lemma one_hot_nth:
  "t < length idx \<Longrightarrow> e < E \<Longrightarrow>
     one_hot_with_dtype idx E ! t ! e = (if idx ! t = e then 1 else 0)"
  by (auto simp: one_hot_with_dtype_def nth_list_update)

lemma one_hot_lengths:
  "length (one_hot_with_dtype idx E) = length idx"
  "\<forall>r \<in> set (one_hot_with_dtype idx E). length r = E"
  by (auto simp: one_hot_with_dtype_def)

lemma sum_atMost_indicator:
  fixes t :: nat
  shows "(\<Sum>s\<le>t. if P s then (1::int) else 0) = int (card {s. s \<le> t \<and> P s})"
proof -
  have "(\<Sum>s\<le>t. if P s then (1::int) else 0) = int (card ({..t} \<inter> {s. P s}))"
    by (subst sum.If_cases) simp_all
  also have "{..t} \<inter> {s. P s} = {s. s \<le> t \<and> P s}" by auto
  finally show ?thesis .
qed

lemma onehot_dot_int:
  fixes xs :: "int list"
  shows "i < length xs \<Longrightarrow> n = length xs \<Longrightarrow>
    sum_list (map2 (*) xs ((replicate n 0)[i := 1])) = xs ! i"
proof (induction xs arbitrary: i n)
  case Nil
  then show ?case by simp
next
  case (Cons x xs)
  obtain m where n: "n = Suc m" and m: "m = length xs" using Cons.prems by simp
  have zero: "sum_list (map2 (*) xs (replicate m (0::int))) = 0"
    unfolding m by (induction xs) simp_all
  show ?case
  proof (cases i)
    case 0
    then show ?thesis using zero by (simp add: n)
  next
    case (Suc j)
    then show ?thesis using Cons.IH[of j m] Cons.prems m by (simp add: n)
  qed
qed

lemma argsort_props:
  "length (argsort xs) = length xs"
  "set (argsort xs) = {0..<length xs}"
  "distinct (argsort xs)"
  "sorted (map (\<lambda>i. xs ! i) (argsort xs))"
  by (simp_all add: argsort_def)

lemma argsort_inverse:
  fixes perm :: "nat list"
  assumes "set perm = {0..<length perm}" "distinct perm"
  shows "map (\<lambda>j. perm ! j) (argsort perm) = [0..<length perm]"
proof -
  let ?inv = "argsort perm"
  let ?n = "length perm"
  have inj: "inj_on (\<lambda>j. perm ! j) (set ?inv)"
    using assms(2) by (auto simp: argsort_props inj_on_def nth_eq_iff_index_eq)
  have d: "distinct (map (\<lambda>j. perm ! j) ?inv)"
    using inj argsort_props(3)[of perm] by (simp add: distinct_map)
  have "set (map (\<lambda>j. perm ! j) ?inv) = (\<lambda>j. perm ! j) ` {0..<?n}"
    by (simp add: argsort_props)
  also have "\<dots> = set perm"
    by (auto simp: set_conv_nth)
  finally have s: "set (map (\<lambda>j. perm ! j) ?inv) = set [0..<?n]" using assms(1) by simp
  show ?thesis
    by (rule sorted_distinct_set_unique[OF argsort_props(4) d _ _ s]) simp_all
qed

lemma argsort_roundtrip:
  assumes "t < length (xs :: real list)"
  shows "argsort (argsort xs) ! t < length xs \<and> argsort xs ! (argsort (argsort xs) ! t) = t"
proof -
  let ?perm = "argsort xs"
  have m: "map (\<lambda>j. ?perm ! j) (argsort ?perm) = [0..<length ?perm]"
    by (rule argsort_inverse) (simp_all add: argsort_props)
  have lt: "t < length (argsort ?perm)" using assms by (simp add: argsort_props)
  have "argsort ?perm ! t \<in> set (argsort ?perm)" using lt by simp
  then have r: "argsort ?perm ! t < length xs" by (simp add: argsort_props)
  have "map (\<lambda>j. ?perm ! j) (argsort ?perm) ! t = [0..<length ?perm] ! t" using m by simp
  then have "?perm ! (argsort ?perm ! t) = t" using lt assms by (simp add: argsort_props)
  then show ?thesis using r by simp
qed

lemma argsort_order:
  assumes "s < length (xs :: real list)" "t < length xs" "xs ! s < xs ! t"
  shows "argsort (argsort xs) ! s < argsort (argsort xs) ! t"
proof (rule ccontr)
  let ?perm = "argsort xs"
  let ?inv = "argsort ?perm"
  assume "\<not> ?inv ! s < ?inv ! t"
  then have le: "?inv ! t \<le> ?inv ! s" by simp
  have ps: "?inv ! s < length xs" "?perm ! (?inv ! s) = s"
    using argsort_roundtrip[OF assms(1)] by simp_all
  have pt: "?inv ! t < length xs" "?perm ! (?inv ! t) = t"
    using argsort_roundtrip[OF assms(2)] by simp_all
  have srt: "sorted (map (\<lambda>i. xs ! i) ?perm)" by (rule argsort_props)
  have "?inv ! s < length (map (\<lambda>i. xs ! i) ?perm)" using ps(1) by (simp add: argsort_props)
  then have "map (\<lambda>i. xs ! i) ?perm ! (?inv ! t) \<le> map (\<lambda>i. xs ! i) ?perm ! (?inv ! s)"
    using sorted_nth_mono[OF srt le] by simp
  then have "xs ! t \<le> xs ! s" using ps pt by (simp add: argsort_props)
  then show False using assms(3) by simp
qed

lemma mul2_nth:
  fixes a b :: "int list list"
  assumes "p < length a" "p < length b" "e < length (a ! p)" "e < length (b ! p)"
  shows "mul2 a b ! p ! e = a ! p ! e * b ! p ! e"
  using assms by (simp add: mul2_def)

lemma compute_sorted_location_nth:
  assumes rows: "\<forall>r \<in> set x. length r = E" and len: "length imp = length x"
    and t: "t < length x" and e: "e < E"
  shows "compute_sorted_location x imp ! t ! e
     = ((\<Sum>q\<le>argsort (argsort imp) ! t. x ! (argsort imp ! q) ! e) - 1) * x ! t ! e"
proof -
  let ?perm = "argsort imp"
  let ?inv = "argsort ?perm"
  let ?sx = "map (\<lambda>i. x ! i) ?perm"
  have t': "t < length imp" using t len by simp
  have p: "?inv ! t < length x" "?perm ! (?inv ! t) = t"
    using argsort_roundtrip[OF t'] len by simp_all
  have srows: "\<forall>r \<in> set ?sx. length r = E"
    using rows len by (auto simp: argsort_props)
  have pl: "?inv ! t < length ?sx" using p(1) len by (simp add: argsort_props)
  have cs: "length (fast_cumsum_sub_one ?sx ! (?inv ! t)) = E"
      "fast_cumsum_sub_one ?sx ! (?inv ! t) ! e = (\<Sum>s\<le>?inv ! t. ?sx ! s ! e) - 1"
    using fast_cumsum_sub_one_nth[OF srows pl e] by simp_all
  have sxe: "?sx ! (?inv ! t) = x ! t" using p pl by simp
  have lxe: "length (x ! t) = E" using rows t by simp
  have sum_eq: "(\<Sum>s\<le>?inv ! t. ?sx ! s ! e) = (\<Sum>q\<le>?inv ! t. x ! (?perm ! q) ! e)"
    by (rule sum.cong) (use p(1) len in \<open>simp_all add: argsort_props\<close>)
  have "compute_sorted_location x imp ! t
      = mul2 (fast_cumsum_sub_one ?sx) ?sx ! (?inv ! t)"
    using t' by (simp add: compute_sorted_location_def Let_def argsort_props)
  also have "\<dots> ! e = fast_cumsum_sub_one ?sx ! (?inv ! t) ! e * ?sx ! (?inv ! t) ! e"
    by (rule mul2_nth) (use pl cs(1) e sxe lxe in \<open>simp_all add: fast_cumsum_sub_one_length\<close>)
  finally show ?thesis using cs(2) sxe sum_eq by simp
qed

lemma sum_dim0_length: "length (sum_dim0 E x) = E"
  by (simp add: sum_dim0_def)

lemma acc_base_at_length: "length (acc_base_at E masks k) = E"
  by (induction k) (simp_all add: sum_dim0_length)

lemma acc_base_at_nth:
  "e < E \<Longrightarrow> acc_base_at E masks k ! e = (\<Sum>j<k. sum_dim0 E (masks ! j) ! e)"
  by (induction k) (simp_all add: acc_base_at_length sum_dim0_length)

lemma map2_add_zero:
  fixes s :: "int list"
  shows "length s = E \<Longrightarrow> map2 (+) (replicate E 0) s = s"
proof -
  have "map2 (+) (replicate (length s) 0) s = s" by (induction s) simp_all
  then show "length s = E \<Longrightarrow> map2 (+) (replicate E 0) s = s" by simp
qed

lemma locations_loop_eq:
  assumes "1 \<le> k0" "k0 \<le> K"
    and "case acc of None \<Rightarrow> k0 = 1 | Some b \<Rightarrow> b = acc_base_at E masks (k0 - 1)"
  shows "locations_loop cl E masks [k0..<K] acc locs
       = locs @ map (\<lambda>k. map to_int32 (sum_dim1 (mul2
                     (add_base (cl (masks ! k)) (acc_base_at E masks k)) (masks ! k))))
                  [k0..<K]"
  using assms
proof (induction "K - k0" arbitrary: k0 acc locs)
  case 0
  then show ?case by simp
next
  case (Suc d)
  have lt: "k0 < K" using Suc.hyps(2) by simp
  have up: "[k0..<K] = k0 # [Suc k0..<K]" using lt by (simp add: upt_conv_Cons)
  obtain j where j: "k0 = Suc j" using Suc.prems(1) by (cases k0) simp_all
  let ?s = "sum_dim0 E (masks ! (k0 - 1))"
  let ?acc' = "(case acc of None \<Rightarrow> ?s | Some b \<Rightarrow> map2 (+) b ?s)"
  have acc': "?acc' = acc_base_at E masks k0"
  proof (cases acc)
    case None
    then have "j = 0" using Suc.prems(3) j by simp
    then show ?thesis using None j by (simp add: map2_add_zero sum_dim0_length)
  next
    case (Some b)
    then show ?thesis using Suc.prems(3) j by simp
  qed
  have ih: "locations_loop cl E masks [Suc k0..<K] (Some (acc_base_at E masks k0)) locs'
       = locs' @ map (\<lambda>k. map to_int32 (sum_dim1 (mul2
                     (add_base (cl (masks ! k)) (acc_base_at E masks k)) (masks ! k))))
                  [Suc k0..<K]" for locs'
    using Suc.hyps(1)[of "Suc k0" "Some (acc_base_at E masks k0)" locs'] Suc.hyps(2) lt by simp
  have step: "locations_loop cl E masks (k0 # [Suc k0..<K]) acc locs
      = locations_loop cl E masks [Suc k0..<K] (Some ?acc')
          (locs @ [map to_int32 (sum_dim1 (mul2 (add_base (cl (masks ! k0)) ?acc') (masks ! k0)))])"
    by (simp only: locations_loop.simps Let_def)
  show ?case
    unfolding up step acc' ih by simp
qed

lemma importance_length: "length (importance G) = length (g_rows G)"
  by (simp add: importance_def)

lemma pos_tok:
  assumes "t < length (g_rows G)"
  shows "pos_of G bpr t < length (g_rows G) \<and> tok_at G bpr (pos_of G bpr t) = t"
  using argsort_roundtrip[of t "importance G"] assms
  by (simp add: pos_of_def tok_at_def importance_length)

lemma tok_at_less:
  assumes "q < length (g_rows G)"
  shows "tok_at G bpr q < length (g_rows G)"
proof (cases bpr)
  case True
  have "q < length (argsort (importance G))"
    using assms by (simp add: argsort_props importance_length)
  then have "argsort (importance G) ! q \<in> set (argsort (importance G))"
    by (rule nth_mem)
  then have "argsort (importance G) ! q < length (g_rows G)"
    by (simp add: argsort_props importance_length)
  then show ?thesis using True by (simp add: tok_at_def)
next
  case False
  then show ?thesis using assms by (simp add: tok_at_def)
qed

lemma sel_less:
  assumes "wf_gates G" "k < top_k" "top_k \<le> g_experts G" "t < length (g_rows G)"
  shows "sel G top_k k t < g_experts G"
proof -
  have "length (g_rows G ! t) = g_experts G"
    using assms(1,4) by (simp add: wf_gates_def list_all_length)
  then show ?thesis using topk_row_nth_less[of k top_k "g_rows G ! t"] assms(2,3)
    by (simp add: sel_def)
qed

lemma masks_of_sel:
  assumes "k < top_k" "t < length (g_rows G)" "e < g_experts G"
  shows "masks_of G top_k ! k ! t ! e = (if sel G top_k k t = e then 1 else 0)"
  using assms by (simp add: masks_of_nth one_hot_nth sel_def)

lemma masks_of_shape:
  assumes "k < top_k"
  shows "length (masks_of G top_k ! k) = length (g_rows G)"
    and "\<forall>r \<in> set (masks_of G top_k ! k). length r = g_experts G"
  using assms by (simp_all add: masks_of_nth one_hot_lengths)

lemma masks_of_row:
  assumes "k < top_k" "t < length (g_rows G)"
  shows "masks_of G top_k ! k ! t = (replicate (g_experts G) 0)[sel G top_k k t := 1]"
  using assms by (simp add: masks_of_nth one_hot_with_dtype_def sel_def)

lemma cumsum_acc_rows:
  assumes "\<forall>r \<in> set x. length r = E" "length acc = E"
  shows "\<forall>r \<in> set (cumsum_acc acc x). length r = E"
  using assms
proof (induction x arbitrary: acc)
  case Nil
  then show ?case by simp
next
  case (Cons a x)
  have l: "length (map2 (+) acc a) = E" using Cons.prems by simp
  have "\<forall>r \<in> set (cumsum_acc (map2 (+) acc a) x). length r = E"
    using Cons.IH[OF _ l] Cons.prems(1) by simp
  then show ?case using l by (simp add: Let_def)
qed

lemma fast_cumsum_sub_one_rows:
  assumes "\<forall>r \<in> set x. length r = E" "x \<noteq> []"
  shows "\<forall>r \<in> set (fast_cumsum_sub_one x). length r = E"
proof -
  have nc: "ncols x = E" using assms by (cases x) (simp_all add: ncols_def)
  show ?thesis
    using cumsum_acc_rows[OF assms(1), of "replicate E 0"]
    by (simp add: fast_cumsum_sub_one_def nc)
qed

lemma compute_sorted_location_row_length:
  assumes rows: "\<forall>r \<in> set x. length r = E" and len: "length imp = length x"
    and t: "t < length x"
  shows "length (compute_sorted_location x imp) = length x"
    and "length (compute_sorted_location x imp ! t) = E"
proof -
  let ?perm = "argsort imp"
  let ?inv = "argsort ?perm"
  let ?sx = "map (\<lambda>i. x ! i) ?perm"
  show "length (compute_sorted_location x imp) = length x"
    using len by (simp add: compute_sorted_location_def Let_def argsort_props)
  have t': "t < length imp" using t len by simp
  have p: "?inv ! t < length x" using argsort_roundtrip[OF t'] len by simp
  have srows: "\<forall>r \<in> set ?sx. length r = E"
    using rows len by (auto simp: argsort_props)
  have pl: "?inv ! t < length ?sx" using p len by (simp add: argsort_props)
  have l1: "length (?sx ! (?inv ! t)) = E" using srows pl nth_mem by blast
  have l2: "length (fast_cumsum_sub_one ?sx ! (?inv ! t)) = E"
  proof -
    have "?sx \<noteq> []" using pl by auto
    then have "\<forall>r \<in> set (fast_cumsum_sub_one ?sx). length r = E"
      using fast_cumsum_sub_one_rows[OF srows] by simp
    moreover have "fast_cumsum_sub_one ?sx ! (?inv ! t) \<in> set (fast_cumsum_sub_one ?sx)"
      using pl by (intro nth_mem) (simp add: fast_cumsum_sub_one_length)
    ultimately show ?thesis by blast
  qed
  have "compute_sorted_location x imp ! t = mul2 (fast_cumsum_sub_one ?sx) ?sx ! (?inv ! t)"
    using t' by (simp add: compute_sorted_location_def Let_def argsort_props)
  then show "length (compute_sorted_location x imp ! t) = E"
    using l1 l2 pl by (simp add: mul2_def fast_cumsum_sub_one_length)
qed

lemma compute_sorted_location_length:
  "length (compute_sorted_location x imp) = length imp"
  by (simp add: compute_sorted_location_def Let_def argsort_props)

lemma compute_location_nth:
  assumes wf: "wf_gates G" and k: "k < top_k" "top_k \<le> g_experts G"
    and t: "t < length (g_rows G)"
  shows "length (compute_location bpr G (masks_of G top_k ! k)) = length (g_rows G)"
    and "length (compute_location bpr G (masks_of G top_k ! k) ! t) = g_experts G"
    and "compute_location bpr G (masks_of G top_k ! k) ! t ! sel G top_k k t
       = int (card {q. q \<le> pos_of G bpr t \<and> sel G top_k k (tok_at G bpr q) = sel G top_k k t}) - 1"
proof -
  let ?M = "masks_of G top_k ! k"
  let ?E = "g_experts G"
  let ?n = "length (g_rows G)"
  let ?e = "sel G top_k k t"
  note sh = masks_of_shape[OF k(1), of G]
  have e: "?e < ?E" by (rule sel_less[OF wf k t])
  have tM: "t < length ?M" using t sh(1) by simp
  have ne: "?M \<noteq> []" using tM by auto
  have pt: "pos_of G bpr t < ?n" "tok_at G bpr (pos_of G bpr t) = t"
    using pos_tok[OF t] by simp_all
  show "length (compute_location bpr G ?M) = ?n"
    using sh(1)
    by (simp add: compute_location_def fast_cumsum_sub_one_length
        compute_sorted_location_length)
  show "length (compute_location bpr G ?M ! t) = ?E"
  proof (cases bpr)
    case True
    then show ?thesis
      using compute_sorted_location_row_length(2)[OF sh(2) _ tM, of "importance G"] sh(1)
      by (simp add: compute_location_def importance_def)
  next
    case False
    have "fast_cumsum_sub_one ?M ! t \<in> set (fast_cumsum_sub_one ?M)"
      using tM by (intro nth_mem) (simp add: fast_cumsum_sub_one_length)
    then show ?thesis
      using False fast_cumsum_sub_one_rows[OF sh(2) ne] by (simp add: compute_location_def)
  qed
  show "compute_location bpr G ?M ! t ! ?e
       = int (card {q. q \<le> pos_of G bpr t \<and> sel G top_k k (tok_at G bpr q) = ?e}) - 1"
  proof (cases bpr)
    case True
    have "compute_location bpr G ?M ! t ! ?e
        = ((\<Sum>q\<le>pos_of G bpr t. ?M ! (tok_at G bpr q) ! ?e) - 1) * ?M ! t ! ?e"
      using compute_sorted_location_nth[OF sh(2) _ tM e, of "importance G"] sh(1) True
      by (simp add: compute_location_def importance_def pos_of_def tok_at_def)
    also have "?M ! t ! ?e = 1" using masks_of_sel[OF k(1) t e] by simp
    also have "(\<Sum>q\<le>pos_of G bpr t. ?M ! (tok_at G bpr q) ! ?e)
        = (\<Sum>q\<le>pos_of G bpr t. if sel G top_k k (tok_at G bpr q) = ?e then 1 else 0)"
    proof (rule sum.cong)
      fix q assume "q \<in> {..pos_of G bpr t}"
      then have "q < ?n" using pt(1) by simp
      then have "tok_at G bpr q < ?n" by (rule tok_at_less)
      then show "?M ! (tok_at G bpr q) ! ?e = (if sel G top_k k (tok_at G bpr q) = ?e then 1 else 0)"
        using masks_of_sel[OF k(1) _ e] by simp
    qed simp
    finally show ?thesis by (simp add: sum_atMost_indicator)
  next
    case False
    have "compute_location bpr G ?M ! t ! ?e = (\<Sum>s\<le>t. ?M ! s ! ?e) - 1"
      using fast_cumsum_sub_one_nth[OF sh(2) tM e] False by (simp add: compute_location_def)
    also have "(\<Sum>s\<le>t. ?M ! s ! ?e) = (\<Sum>s\<le>t. if sel G top_k k s = ?e then 1 else 0)"
    proof (rule sum.cong)
      fix s assume "s \<in> {..t}"
      then have "s < ?n" using t by simp
      then show "?M ! s ! ?e = (if sel G top_k k s = ?e then 1 else 0)"
        using masks_of_sel[OF k(1) _ e] by simp
    qed simp
    finally show ?thesis using False by (simp add: sum_atMost_indicator pos_of_def tok_at_def)
  qed
qed

lemma acc_base_masks:
  assumes "k \<le> top_k" "e < g_experts G"
  shows "acc_base_at (g_experts G) (masks_of G top_k) k ! e
       = (\<Sum>j<k. int (card {s. s < length (g_rows G) \<and> sel G top_k j s = e}))"
proof -
  have "sum_dim0 (g_experts G) (masks_of G top_k ! j) ! e
      = int (card {s. s < length (g_rows G) \<and> sel G top_k j s = e})" if "j < k" for j
  proof -
    have j: "j < top_k" using that assms(1) by simp
    have "{t. t < length (g_rows G) \<and> map (\<lambda>r. topk_row top_k r ! j) (g_rows G) ! t = e}
        = {s. s < length (g_rows G) \<and> sel G top_k j s = e}"
      by (auto simp: sel_def)
    then show ?thesis
      using assms(2) by (simp add: masks_of_nth[OF j] sum_dim0_mask)
  qed
  then show ?thesis using assms(2) by (simp add: acc_base_at_nth)
qed

lemma masked_location:
  fixes L M :: "int list list"
  assumes "t < length L" "t < length M" "length (L ! t) = E" "e < E"
    and "M ! t = (replicate E 0)[e := 1]"
  shows "sum_dim1 (mul2 L M) ! t = L ! t ! e"
proof -
  have "sum_dim1 (mul2 L M) ! t = sum_list (map2 (*) (L ! t) (M ! t))"
    using assms(1,2) by (simp add: sum_dim1_def mul2_def)
  also have "\<dots> = sum_list (map2 (*) (L ! t) ((replicate E 0)[e := 1]))"
    by (simp only: assms(5))
  also have "\<dots> = L ! t ! e"
    by (rule onehot_dot_int) (simp_all add: assms(3,4))
  finally show ?thesis .
qed

lemma sum_dim1_mul2_length:
  "length (sum_dim1 (mul2 L M)) = min (length L) (length M)"
  by (simp add: sum_dim1_def mul2_def)

lemma rank0_location:
  assumes wf: "wf_gates G" and k: "0 < top_k" "top_k \<le> g_experts G"
    and t: "t < length (g_rows G)"
  shows "map to_int32 (sum_dim1 (mul2 (compute_location bpr G (masks_of G top_k ! 0))
            (masks_of G top_k ! 0))) ! t = to_int32 (slot_number G top_k bpr 0 t)"
proof -
  let ?M = "masks_of G top_k ! 0"
  let ?L = "compute_location bpr G ?M"
  note cl = compute_location_nth[OF wf k t, of bpr]
  note sh = masks_of_shape[OF k(1), of G]
  have e: "sel G top_k 0 t < g_experts G" by (rule sel_less[OF wf k t])
  have "sum_dim1 (mul2 ?L ?M) ! t = ?L ! t ! sel G top_k 0 t"
    by (rule masked_location[where E = "g_experts G"])
       (use cl sh t e masks_of_row[OF k(1) t] in simp_all)
  then show ?thesis
    using cl(1,3) sh(1) t by (simp add: sum_dim1_mul2_length slot_number_def)
qed

lemma higher_rank_location:
  assumes wf: "wf_gates G" and k: "k < top_k" "top_k \<le> g_experts G"
    and t: "t < length (g_rows G)"
  shows "map to_int32 (sum_dim1 (mul2
            (add_base (compute_location bpr G (masks_of G top_k ! k))
               (acc_base_at (g_experts G) (masks_of G top_k) k))
            (masks_of G top_k ! k))) ! t = to_int32 (slot_number G top_k bpr k t)"
proof -
  let ?M = "masks_of G top_k ! k"
  let ?L = "compute_location bpr G ?M"
  let ?B = "acc_base_at (g_experts G) (masks_of G top_k) k"
  let ?e = "sel G top_k k t"
  note cl = compute_location_nth[OF wf k t, of bpr]
  note sh = masks_of_shape[OF k(1), of G]
  have e: "?e < g_experts G" by (rule sel_less[OF wf k t])
  have row: "add_base ?L ?B ! t = map2 (+) (?L ! t) ?B"
    using cl(1) t by (simp add: add_base_def)
  have lrow: "length (add_base ?L ?B ! t) = g_experts G"
    using cl(2) by (simp add: row acc_base_at_length)
  have "sum_dim1 (mul2 (add_base ?L ?B) ?M) ! t = add_base ?L ?B ! t ! ?e"
    by (rule masked_location[where E = "g_experts G"])
       (use cl sh t e lrow masks_of_row[OF k(1) t] in \<open>simp_all add: add_base_def\<close>)
  also have "\<dots> = ?L ! t ! ?e + ?B ! ?e"
    using cl(2) e by (simp add: row acc_base_at_length)
  also have "\<dots> = slot_number G top_k bpr k t"
    using cl(3) acc_base_masks[of k top_k "?e" G] k(1) e by (simp add: slot_number_def)
  finally show ?thesis
    using cl(1) sh(1) t by (simp add: sum_dim1_mul2_length add_base_def)
qed

lemma locations_of_nth:
  assumes wf: "wf_gates G" and k: "k < top_k" "top_k \<le> g_experts G"
    and t: "t < length (g_rows G)"
  shows "locations_of G top_k bpr ! k ! t = to_int32 (slot_number G top_k bpr k t)"
proof -
  let ?cl = "compute_location bpr G"
  let ?ms = "masks_of G top_k"
  let ?l0 = "[map to_int32 (sum_dim1 (mul2 (?cl (?ms ! 0)) (?ms ! 0)))]"
  let ?F = "\<lambda>k. map to_int32 (sum_dim1 (mul2
                     (add_base (?cl (?ms ! k)) (acc_base_at (g_experts G) ?ms k)) (?ms ! k)))"
  have pos: "0 < top_k" using k(1) by simp
  have loc: "locations_of G top_k bpr = (if top_k > 1 then ?l0 @ map ?F [1..<top_k] else ?l0)"
    using locations_loop_eq[where ?k0.0 = 1 and K = top_k and acc = None
        and E = "g_experts G" and masks = ?ms and cl = ?cl and locs = ?l0] pos
    by (simp add: locations_of_def Let_def)
  show ?thesis
  proof (cases k)
    case 0
    then show ?thesis
      using rank0_location[OF wf pos k(2) t, of bpr] by (simp add: loc)
  next
    case (Suc j)
    have nth: "[1..<top_k] ! j = k" using Suc k(1) by simp
    have "locations_of G top_k bpr ! k = map ?F [1..<top_k] ! j"
      using Suc k(1) by (simp add: loc nth_append)
    also have "\<dots> = ?F ([1..<top_k] ! j)"
      using Suc k(1) by (intro nth_map) simp
    finally have "locations_of G top_k bpr ! k = ?F k"
      by (simp only: nth)
    then show ?thesis using higher_rank_location[OF wf k t, of bpr] by simp
  qed
qed


lemma slot_number_strict:
  assumes s: "s < length (g_rows G)" and t: "t < length (g_rows G)"
    and e: "sel G top_k k s = sel G top_k k t"
    and lt: "pos_of G bpr s < pos_of G bpr t"
  shows "slot_number G top_k bpr k s < slot_number G top_k bpr k t"
proof -
  let ?e = "sel G top_k k t"
  let ?A = "\<lambda>u. {q. q \<le> pos_of G bpr u \<and> sel G top_k k (tok_at G bpr q) = ?e}"
  have fin: "finite (?A t)" by simp
  have "pos_of G bpr t \<in> ?A t" using pos_tok[OF t, of bpr] by simp
  moreover have "pos_of G bpr t \<notin> ?A s" using lt by simp
  moreover have "?A s \<subseteq> ?A t" using lt by auto
  ultimately have "?A s \<subset> ?A t" by blast
  then have "card (?A s) < card (?A t)" by (rule psubset_card_mono[OF fin])
  then show ?thesis by (simp add: slot_number_def e)
qed

lemma slot_number_bounds:
  assumes t: "t < length (g_rows G)"
  shows "0 \<le> slot_number G top_k bpr k t"
    and "slot_number G top_k bpr k t < int (Suc k * length (g_rows G))"
proof -
  let ?n = "length (g_rows G)"
  let ?e = "sel G top_k k t"
  let ?A = "{q. q \<le> pos_of G bpr t \<and> sel G top_k k (tok_at G bpr q) = ?e}"
  have pt: "pos_of G bpr t < ?n" "tok_at G bpr (pos_of G bpr t) = t"
    using pos_tok[OF t] by simp_all
  have "pos_of G bpr t \<in> ?A" using pt(2) by simp
  then have "?A \<noteq> {}" by blast
  then have c1: "1 \<le> card ?A" by (simp add: Suc_le_eq card_gt_0_iff)
  have "?A \<subseteq> {..<?n}" using pt(1) by auto
  then have "card ?A \<le> card {..<?n}" by (intro card_mono) simp_all
  then have c2: "card ?A \<le> ?n" by simp
  have each: "card {s. s < ?n \<and> sel G top_k j s = ?e} \<le> ?n" for j
  proof -
    have "{s. s < ?n \<and> sel G top_k j s = ?e} \<subseteq> {..<?n}" by auto
    then have "card {s. s < ?n \<and> sel G top_k j s = ?e} \<le> card {..<?n}"
      by (intro card_mono) simp_all
    then show ?thesis by simp
  qed
  have "(\<Sum>j<k. card {s. s < ?n \<and> sel G top_k j s = ?e}) \<le> (\<Sum>j<k. ?n)"
    by (rule sum_mono) (rule each)
  then have b: "(\<Sum>j<k. card {s. s < ?n \<and> sel G top_k j s = ?e}) \<le> k * ?n" by simp
  have sn: "slot_number G top_k bpr k t
      = int (card ?A) - 1 + int (\<Sum>j<k. card {s. s < ?n \<and> sel G top_k j s = ?e})"
    by (simp add: slot_number_def)
  show "0 \<le> slot_number G top_k bpr k t" using c1 unfolding sn by linarith
  have lt: "int (card ?A) - 1 + int (\<Sum>j<k. card {s. s < ?n \<and> sel G top_k j s = ?e})
      < int ?n + int (k * ?n)" using c1 c2 b by linarith
  have "int (Suc k * ?n) = int ?n + int (k * ?n)" by simp
  then show "slot_number G top_k bpr k t < int (Suc k * ?n)"
    using lt unfolding sn by (simp only:)
qed

lemma pos_of_inj:
  assumes "s < length (g_rows G)" "t < length (g_rows G)" "pos_of G bpr s = pos_of G bpr t"
  shows "s = t"
proof -
  have "s = tok_at G bpr (pos_of G bpr s)" using pos_tok[OF assms(1), of bpr] by simp
  also have "\<dots> = tok_at G bpr (pos_of G bpr t)" by (simp only: assms(3))
  also have "\<dots> = t" using pos_tok[OF assms(2), of bpr] by simp
  finally show ?thesis .
qed

lemma pos_of_confidence:
  assumes "s < length (g_rows G)" "t < length (g_rows G)"
    and "row_max (g_rows G ! t) < row_max (g_rows G ! s)"
  shows "pos_of G True s < pos_of G True t"
proof -
  have "importance G ! s < importance G ! t" using assms by (simp add: importance_def)
  then show ?thesis
    using argsort_order[of s "importance G" t] assms(1,2)
    by (simp add: pos_of_def importance_length)
qed




text \<open>
  C3.  In the output of \<open>extract_critical\<close>, two different tokens routed to the same
  expert at the same rank never get the same location (so in particular not below the
  capacity).  Without prioritised routing the earlier token gets the smaller location; with
  prioritised routing the token with the larger top-1 gate score (the row maximum) gets
  the smaller location.  Locations are listed by original token index.  The tensors are
  small enough for the int32 conversion to be exact.
\<close>

theorem slot_assignment_unique_ordered:
  assumes ret: "extract_critical G top_k cf fp bpr = Inr (crit, l)"
    and wf: "wf_gates G" and E: "g_experts G \<le> 2147483648"
    and size: "top_k * length (g_rows G) \<le> 2147483648"
    and k: "k < top_k" and s: "s < length (g_rows G)" and t: "t < length (g_rows G)"
    and ne: "s \<noteq> t"
    and same: "crit_indices crit ! k ! s = crit_indices crit ! k ! t"
  shows "crit_locations crit ! k ! s \<noteq> crit_locations crit ! k ! t
     \<and> (\<not> bpr \<and> s < t \<longrightarrow> crit_locations crit ! k ! s < crit_locations crit ! k ! t)
     \<and> (bpr \<and> row_max (g_rows G ! t) < row_max (g_rows G ! s)
          \<longrightarrow> crit_locations crit ! k ! s < crit_locations crit ! k ! t)"
proof -
  let ?n = "length (g_rows G)"
  have kE: "top_k \<le> g_experts G" using ret by (simp add: extract_critical_Inr)
  have ci: "crit_indices crit = map (map (\<lambda>i. to_int32 (int i))) (indices_of G top_k)"
    and cl: "crit_locations crit = locations_of G top_k bpr"
    using ret by (simp_all add: extract_critical_Inr crit_defs)
  have idx: "crit_indices crit ! k ! u = int (sel G top_k k u)" if "u < ?n" for u
  proof -
    have "sel G top_k k u < g_experts G" by (rule sel_less[OF wf k kE that])
    then have "to_int32 (int (sel G top_k k u)) = int (sel G top_k k u)"
      using E by (intro to_int32_id) simp_all
    then show ?thesis
      using that k by (simp add: ci indices_of_length indices_of_nth sel_def)
  qed
  have e: "sel G top_k k s = sel G top_k k t" using same idx[OF s] idx[OF t] by simp
  have loc: "crit_locations crit ! k ! u = slot_number G top_k bpr k u" if "u < ?n" for u
  proof -
    have "Suc k * ?n \<le> top_k * ?n" using k by (intro mult_le_mono1) simp
    then have "int (Suc k * ?n) \<le> 2147483648" using size by linarith
    then have "to_int32 (slot_number G top_k bpr k u) = slot_number G top_k bpr k u"
      using slot_number_bounds[OF that, of top_k bpr k] by (intro to_int32_id) simp_all
    then show ?thesis using locations_of_nth[OF wf k kE that, of bpr] by (simp add: cl)
  qed
  have mono: "slot_number G top_k bpr k u < slot_number G top_k bpr k v"
    if "u < ?n" "v < ?n" "sel G top_k k u = sel G top_k k v" "pos_of G bpr u < pos_of G bpr v"
    for u v
    using slot_number_strict[OF that] .
  have "pos_of G bpr s \<noteq> pos_of G bpr t" using pos_of_inj[OF s t] ne by blast
  then consider "pos_of G bpr s < pos_of G bpr t" | "pos_of G bpr t < pos_of G bpr s"
    by linarith
  then have distinct: "slot_number G top_k bpr k s \<noteq> slot_number G top_k bpr k t"
  proof cases
    case 1
    then show ?thesis using mono[OF s t e] by simp
  next
    case 2
    then show ?thesis using mono[OF t s e[symmetric]] by simp
  qed
  have order: "slot_number G top_k bpr k s < slot_number G top_k bpr k t"
    if "\<not> bpr \<and> s < t"
    using mono[OF s t e] that by (simp add: pos_of_def)
  have prio: "slot_number G top_k bpr k s < slot_number G top_k bpr k t"
    if "bpr \<and> row_max (g_rows G ! t) < row_max (g_rows G ! s)"
    using mono[OF s t e] pos_of_confidence[OF s t] that by simp
  show ?thesis
    using distinct order prio by (simp add: loc[OF s] loc[OF t])
qed

lemma demo_run_prio:
  "extract_critical demo_gates_prio 1 1 False True = Inr (demo_crit_prio, Fin (3/2))"
  by code_simp

lemma demo_prio_facts:
  "wf_gates demo_gates_prio" "g_experts demo_gates_prio \<le> 2147483648"
  "1 * length (g_rows demo_gates_prio) \<le> 2147483648"
  "1 < length (g_rows demo_gates_prio)" "0 < length (g_rows demo_gates_prio)"
  by (simp_all add: wf_gates_def demo_gates_prio_def)

lemma demo_size1: "1 * length (g_rows demo_gates) \<le> 2147483648"
  "1 < length (g_rows demo_gates)"
  by (simp_all add: demo_gates_def)

theorem slot_assignment_unique_ordered_witness:
  "crit_locations demo_crit1 ! 0 ! 0 \<noteq> crit_locations demo_crit1 ! 0 ! 1
   \<and> crit_locations demo_crit1 ! 0 ! 0 < crit_locations demo_crit1 ! 0 ! 1
   \<and> crit_locations demo_crit_prio ! 0 ! 1 \<noteq> crit_locations demo_crit_prio ! 0 ! 0
   \<and> crit_locations demo_crit_prio ! 0 ! 1 < crit_locations demo_crit_prio ! 0 ! 0"
proof -
  have k: "(0::nat) < 1" by simp
  have ne: "(0::nat) \<noteq> 1" "(1::nat) \<noteq> 0" by simp_all
  have same1: "crit_indices demo_crit1 ! 0 ! 0 = crit_indices demo_crit1 ! 0 ! 1"
    by (simp add: demo_crit1_def crit_defs)
  have same2: "crit_indices demo_crit_prio ! 0 ! 1 = crit_indices demo_crit_prio ! 0 ! 0"
    by (simp add: demo_crit_prio_def crit_defs)
  have conf: "row_max (g_rows demo_gates_prio ! 0) < row_max (g_rows demo_gates_prio ! 1)"
    by (simp add: demo_gates_prio_def row_max_def)
  have lt: "(0::nat) < 1" by simp
  note a = slot_assignment_unique_ordered[OF demo_run1 demo_gates_wf demo_experts demo_size1(1) k
      demo_tokens(2) demo_size1(2) ne(1) same1]
  note b = slot_assignment_unique_ordered[OF demo_run_prio demo_prio_facts(1,2,3) k
      demo_prio_facts(4,5) ne(2) same2]
  from a lt have "crit_locations demo_crit1 ! 0 ! 0 \<noteq> crit_locations demo_crit1 ! 0 ! 1
   \<and> crit_locations demo_crit1 ! 0 ! 0 < crit_locations demo_crit1 ! 0 ! 1" by blast
  moreover from b conf have "crit_locations demo_crit_prio ! 0 ! 1 \<noteq> crit_locations demo_crit_prio ! 0 ! 0
   \<and> crit_locations demo_crit_prio ! 0 ! 1 < crit_locations demo_crit_prio ! 0 ! 0" by blast
  ultimately show ?thesis by blast
qed

section \<open>Round trip through encode and decode\<close>

lemma forward_scatter_length:
  "length (forward_scatter w I L src dst (n, a, cap)) = length dst"
proof -
  have "length (fold (\<lambda>t d. if L ! t < cap
            then d[slot I L cap t := vadd (d ! slot I L cap t) (smul (w ! t) (src ! t))]
            else d) ts dst) = length dst" for ts
    by (induction ts arbitrary: dst) simp_all
  then show ?thesis by (simp add: forward_scatter_def)
qed



































end
